theory Spec2Isabelle
  imports Main
begin

section \<open>Python values used by the trace tool\<close>

text \<open>
  The development embeds the trace parsers and the trace comparator of
  \<^verbatim>\<open>src/build/trace_ref.py\<close> (class \<^verbatim>\<open>AvidaTracer\<close>).
  A Python \<^verbatim>\<open>str\<close> is a \<^typ>\<open>string\<close>; one \<^typ>\<open>char\<close> stands for one code point
  below 256, so the text covered is the Latin-1 part of Unicode. A file is the list of its
  lines. Python integers are \<^typ>\<open>int\<close>. An exception that leaves a method is the \<open>Inl\<close>
  branch of a sum; no method of the class catches one.
\<close>

datatype py_error = ValueError | IndexError | KeyError

text \<open>\<^verbatim>\<open>str.isspace\<close> on one code point below 256.\<close>

definition is_space :: "char \<Rightarrow> bool" where
  "is_space c \<longleftrightarrow>
     (let n = (of_char c :: nat)
      in (9 \<le> n \<and> n \<le> 13) \<or> (28 \<le> n \<and> n \<le> 32) \<or> n = 133 \<or> n = 160)"

text \<open>The decimal digits, the only code points below 256 that \<^verbatim>\<open>int\<close> reads.\<close>

definition is_decimal :: "char \<Rightarrow> bool" where
  "is_decimal c \<longleftrightarrow> (let n = (of_char c :: nat) in 48 \<le> n \<and> n \<le> 57)"

definition digit_val :: "char \<Rightarrow> nat" where
  "digit_val c = (of_char c :: nat) - 48"

text \<open>
  \<^verbatim>\<open>str.isnumeric\<close> on one code point below 256: the decimal digits, the superscripts
  two, three and one, and the fractions one quarter, one half and three quarters.
\<close>

definition is_numeric_char :: "char \<Rightarrow> bool" where
  "is_numeric_char c \<longleftrightarrow>
     (let n = (of_char c :: nat)
      in (48 \<le> n \<and> n \<le> 57) \<or> n = 178 \<or> n = 179 \<or> n = 185 \<or> (188 \<le> n \<and> n \<le> 190))"

text \<open>\<^verbatim>\<open>s.isnumeric()\<close>: at least one character, all of them numeric.\<close>

definition isnumeric :: "string \<Rightarrow> bool" where
  "isnumeric s \<longleftrightarrow> s \<noteq> [] \<and> list_all is_numeric_char s"

text \<open>\<^verbatim>\<open>s.strip()\<close>: whitespace removed at both ends.\<close>

definition strip :: "string \<Rightarrow> string" where
  "strip s = rev (dropWhile is_space (rev (dropWhile is_space s)))"

text \<open>
  \<^verbatim>\<open>s.split()\<close>: the maximal runs of characters that are not whitespace. The first
  argument of \<open>split_acc\<close> is the run being read.
\<close>

fun split_acc :: "string \<Rightarrow> string \<Rightarrow> string list" where
  "split_acc cur [] = (if cur = [] then [] else [cur])"
| "split_acc cur (c # cs) =
     (if is_space c then (if cur = [] then split_acc [] cs else cur # split_acc [] cs)
      else split_acc (cur @ [c]) cs)"

definition split :: "string \<Rightarrow> string list" where
  "split s = split_acc [] s"

text \<open>
  \<^verbatim>\<open>int(s)\<close> in base ten: surrounding whitespace is dropped, then an optional sign and
  decimal digits, where one underscore may stand between two digits. Anything else
  raises \<^verbatim>\<open>ValueError\<close>. (The interpreter's optional limit on the number of digits of
  one literal is not part of the model.)
\<close>

fun int_digits :: "string \<Rightarrow> nat \<Rightarrow> nat option" where
  "int_digits [] acc = Some acc"
| "int_digits (c # cs) acc =
     (if is_decimal c then int_digits cs (10 * acc + digit_val c)
      else if c = CHR ''_'' then
        (case cs of
           [] \<Rightarrow> None
         | d # ds \<Rightarrow> if is_decimal d then int_digits ds (10 * acc + digit_val d) else None)
      else None)"

definition int_body :: "string \<Rightarrow> nat option" where
  "int_body s =
     (case s of
        [] \<Rightarrow> None
      | c # cs \<Rightarrow> if is_decimal c then int_digits cs (digit_val c) else None)"

definition py_int :: "string \<Rightarrow> py_error + int" where
  "py_int s0 =
     (let s = strip s0 in
      case s of
        [] \<Rightarrow> Inl ValueError
      | c # cs \<Rightarrow>
          if c = CHR ''-'' then
            (case int_body cs of None \<Rightarrow> Inl ValueError | Some n \<Rightarrow> Inr (- int n))
          else if c = CHR ''+'' then
            (case int_body cs of None \<Rightarrow> Inl ValueError | Some n \<Rightarrow> Inr (int n))
          else
            (case int_body s of None \<Rightarrow> Inl ValueError | Some n \<Rightarrow> Inr (int n)))"

text \<open>
  \<^verbatim>\<open>xs[i] = v\<close> and \<^verbatim>\<open>xs[i]\<close> on a list: a negative index counts from the end, an
  index outside the list raises \<^verbatim>\<open>IndexError\<close>.
\<close>

definition list_index :: "nat \<Rightarrow> int \<Rightarrow> py_error + nat" where
  "list_index len i =
     (if 0 \<le> i \<and> i < int len then Inr (nat i)
      else if i < 0 \<and> - int len \<le> i then Inr (nat (int len + i))
      else Inl IndexError)"

definition set_item :: "'a list \<Rightarrow> int \<Rightarrow> 'a \<Rightarrow> py_error + 'a list" where
  "set_item xs i v =
     (case list_index (length xs) i of Inl e \<Rightarrow> Inl e | Inr j \<Rightarrow> Inr (xs[j := v]))"

definition get_item :: "'a list \<Rightarrow> int \<Rightarrow> py_error + 'a" where
  "get_item xs i =
     (case list_index (length xs) i of Inl e \<Rightarrow> Inl e | Inr j \<Rightarrow> Inr (xs ! j))"

text \<open>
  A \<^verbatim>\<open>dict\<close> from head names to integers, as the list of its items in insertion
  order. \<^verbatim>\<open>d[k] = v\<close> overwrites the value of a key already there, in place, and
  appends a new key at the end.
\<close>

type_synonym head_dict = "(string \<times> int) list"

fun dict_set :: "head_dict \<Rightarrow> string \<Rightarrow> int \<Rightarrow> head_dict" where
  "dict_set [] k v = [(k, v)]"
| "dict_set ((k', v') # d) k v =
     (if k' = k then (k, v) # d else (k', v') # dict_set d k v)"

definition dict_keys :: "head_dict \<Rightarrow> string list" where
  "dict_keys d = map fst d"

definition dict_get :: "head_dict \<Rightarrow> string \<Rightarrow> py_error + int" where
  "dict_get d k = (case map_of d k of None \<Rightarrow> Inl KeyError | Some v \<Rightarrow> Inr v)"

section \<open>The canonical state model and the trace store\<close>

text \<open>
  Class \<^verbatim>\<open>OrgState\<close>: the organism index, the heads and the registers of one recorded
  step. The attribute \<^verbatim>\<open>org_states\<close> of a tracer is a list, indexed by organism, of the
  lists of recorded steps.
\<close>

record OrgState =
  idx :: nat
  heads :: head_dict
  regs :: "int list"

type_synonym trace_store = "OrgState list list"

text \<open>
  The local variables of a parse pass: the store being filled, the organism in progress
  (\<^verbatim>\<open>None\<close> until the first boundary line) and its heads and registers. The locals
  \<^verbatim>\<open>heads\<close> and \<^verbatim>\<open>regs\<close> are \<open>cur_heads\<close> and \<open>cur_regs\<close> here, the plain
  names being the fields of \<open>OrgState\<close>. A flush hands the two objects to the new
  snapshot and the reset binds the locals to fresh ones, so no snapshot shares a list or
  a dict with the running state.
\<close>

record pstate =
  org_states :: trace_store
  org_idx :: "nat option"
  cur_heads :: head_dict
  cur_regs :: "int list"

definition init_pstate :: pstate where
  "init_pstate = \<lparr>org_states = [], org_idx = None, cur_heads = [], cur_regs = []\<rparr>"

text \<open>\<^verbatim>\<open>while len(self.org_states) <= org_idx: self.org_states.append([])\<close>\<close>

function grow_orgs :: "trace_store \<Rightarrow> nat \<Rightarrow> trace_store" where
  "grow_orgs st i = (if length st \<le> i then grow_orgs (st @ [[]]) i else st)"
  by pat_completeness auto
termination
  by (relation "measure (\<lambda>(st, i). Suc i - length st)") auto

declare grow_orgs.simps [simp del]

text \<open>\<^verbatim>\<open>while len(regs) <= reg_idx: regs.append(0)\<close>\<close>

function grow_regs :: "int list \<Rightarrow> int \<Rightarrow> int list" where
  "grow_regs rs i = (if int (length rs) \<le> i then grow_regs (rs @ [0]) i else rs)"
  by pat_completeness auto
termination
  by (relation "measure (\<lambda>(rs, i). nat (i + 1 - int (length rs)))") auto

declare grow_regs.simps [simp del]

text \<open>
  The flush of the organism in progress, the same four lines in both parsers and at both
  places of each: nothing when no organism is in progress; otherwise the store grows up to
  the organism's index, \<^verbatim>\<open>self.org_states[org_idx]\<close> is read and the snapshot is
  appended to it.
\<close>

definition flush :: "pstate \<Rightarrow> py_error + trace_store" where
  "flush s =
     (case org_idx s of
        None \<Rightarrow> Inr (org_states s)
      | Some i \<Rightarrow>
          (let st = grow_orgs (org_states s) i
           in case get_item st (int i) of
                Inl e \<Rightarrow> Inl e
              | Inr steps \<Rightarrow>
                  Inr (st[i := steps @ [\<lparr>idx = i, heads = cur_heads s, regs = cur_regs s\<rparr>]])))"

text \<open>
  \<^verbatim>\<open>for x in xs: body\<close> on a state: the body runs on each element in turn, and an
  exception ends the loop.
\<close>

fun for_each ::
  "(pstate \<Rightarrow> string \<Rightarrow> py_error + pstate) \<Rightarrow> pstate \<Rightarrow> string list \<Rightarrow> py_error + pstate"
where
  "for_each f s [] = Inr s"
| "for_each f s (l # ls) =
     (case f s l of Inl e \<Rightarrow> Inl e | Inr s' \<Rightarrow> for_each f s' ls)"

section \<open>The Format-B parser: \<^verbatim>\<open>parse_mabe_trace\<close>\<close>

text \<open>
  The scan of a heads line, \<^verbatim>\<open>while True\<close> from \<^verbatim>\<open>idx = 0\<close>. The condition reads
  \<^verbatim>\<open>line_parts[idx]\<close> before it compares \<^verbatim>\<open>idx\<close> with the number of tokens, so an
  \<^verbatim>\<open>idx\<close> past the last token raises \<^verbatim>\<open>IndexError\<close>.
\<close>

function scan_heads :: "string list \<Rightarrow> nat \<Rightarrow> head_dict \<Rightarrow> py_error + head_dict" where
  "scan_heads line_parts i hs =
     (if length line_parts \<le> i then Inl IndexError
      else if line_parts ! i = [] then Inl IndexError
      else if last (line_parts ! i) = CHR '':'' \<and> hd (line_parts ! i) \<noteq> CHR ''(''
              \<and> i < length line_parts - 1 then
        (case py_int (line_parts ! (i + 1)) of
           Inl e \<Rightarrow> Inl e
         | Inr v \<Rightarrow> scan_heads line_parts (i + 2) (dict_set hs (butlast (line_parts ! i)) v))
      else Inr hs)"
  by pat_completeness auto
termination
  by (relation "measure (\<lambda>(ps, i, hs). length ps - i)") auto

declare scan_heads.simps [simp del]

text \<open>
  The slice \<^verbatim>\<open>tok[1:-1]\<close> and the test of the first branch: the first token is an
  integer in square brackets.
\<close>

definition inner :: "string \<Rightarrow> string" where
  "inner tok = butlast (tl tok)"

definition is_bracketed :: "string \<Rightarrow> bool" where
  "is_bracketed tok \<longleftrightarrow> hd tok = CHR ''['' \<and> last tok = CHR '']'' \<and> isnumeric (inner tok)"

text \<open>The body of the loop over the lines, for one line.\<close>

definition mabe_line :: "pstate \<Rightarrow> string \<Rightarrow> py_error + pstate" where
  "mabe_line s line0 =
     (let line = strip line0 in
      if length line = 0 then Inr s
      else
        let line_parts = split line in
        if is_bracketed (line_parts ! 0) then
          if length line_parts = 1 then
            (case flush s of
               Inl e \<Rightarrow> Inl e
             | Inr st \<Rightarrow>
                 (case py_int (inner (line_parts ! 0)) of
                    Inl e \<Rightarrow> Inl e
                  | Inr n \<Rightarrow>
                      Inr \<lparr>org_states = st, org_idx = Some (nat n),
                           cur_heads = [], cur_regs = []\<rparr>))
          else
            (case py_int (inner (line_parts ! 0)) of
               Inl e \<Rightarrow> Inl e
             | Inr reg_idx \<Rightarrow>
                 (let rs = grow_regs (cur_regs s) reg_idx in
                  case py_int (line_parts ! 1) of
                    Inl e \<Rightarrow> Inl e
                  | Inr v \<Rightarrow>
                      (case set_item rs reg_idx v of
                         Inl e \<Rightarrow> Inl e
                       | Inr rs' \<Rightarrow> Inr (s\<lparr>cur_regs := rs'\<rparr>))))
        else if line_parts ! 0 = ''IP:'' then
          (case scan_heads line_parts 0 (cur_heads s) of
             Inl e \<Rightarrow> Inl e
           | Inr hs \<Rightarrow> Inr (s\<lparr>cur_heads := hs\<rparr>))
        else Inr s)"

text \<open>
  The state when the loop over the lines ends, and the store the method leaves in
  \<^verbatim>\<open>self.org_states\<close> after the last flush.
\<close>

definition mabe_lines :: "string list \<Rightarrow> py_error + pstate" where
  "mabe_lines ls = for_each mabe_line init_pstate ls"

definition parse_mabe_trace :: "string list \<Rightarrow> py_error + trace_store" where
  "parse_mabe_trace ls =
     (case mabe_lines ls of Inl e \<Rightarrow> Inl e | Inr s \<Rightarrow> flush s)"

section \<open>The Format-A parser: \<^verbatim>\<open>parse_avida_trace\<close>\<close>

text \<open>
  The body of the loop over the tokens of a \<^verbatim>\<open>CPU\<close> line. The register index is the
  code of the first character minus the code of \<^verbatim>\<open>A\<close>, so it is negative for a
  character before \<^verbatim>\<open>A\<close>; the value is read before the registers grow.
\<close>

definition cpu_part :: "pstate \<Rightarrow> string \<Rightarrow> py_error + pstate" where
  "cpu_part s line_part =
     (if length line_part > 3 \<and> take 3 line_part = ''IP:'' then
        (case py_int (drop 3 line_part) of
           Inl e \<Rightarrow> Inl e
         | Inr v \<Rightarrow> Inr (s\<lparr>cur_heads := dict_set (cur_heads s) ''IP'' v\<rparr>))
      else if length line_part > 3 \<and> take 2 (drop 1 line_part) = ''X:'' then
        (let reg_char = line_part ! 0;
             reg_idx = int (of_char reg_char) - int (of_char CHR ''A'')
         in case py_int (drop 3 line_part) of
              Inl e \<Rightarrow> Inl e
            | Inr reg_val \<Rightarrow>
                (case set_item (grow_regs (cur_regs s) reg_idx) reg_idx reg_val of
                   Inl e \<Rightarrow> Inl e
                 | Inr rs' \<Rightarrow> Inr (s\<lparr>cur_regs := rs'\<rparr>)))
      else Inr s)"

text \<open>The body of the loop over the tokens of a heads line.\<close>

definition head_part :: "pstate \<Rightarrow> string \<Rightarrow> py_error + pstate" where
  "head_part s line_part =
     (if length line_part \<ge> 8 then
        if take 6 line_part = ''R-Head'' then
          (case py_int (drop 7 line_part) of
             Inl e \<Rightarrow> Inl e
           | Inr v \<Rightarrow> Inr (s\<lparr>cur_heads := dict_set (cur_heads s) ''RH'' v\<rparr>))
        else if take 6 line_part = ''W-Head'' then
          (case py_int (drop 7 line_part) of
             Inl e \<Rightarrow> Inl e
           | Inr v \<Rightarrow> Inr (s\<lparr>cur_heads := dict_set (cur_heads s) ''WH'' v\<rparr>))
        else if take 6 line_part = ''F-Head'' then
          (case py_int (drop 7 line_part) of
             Inl e \<Rightarrow> Inl e
           | Inr v \<Rightarrow> Inr (s\<lparr>cur_heads := dict_set (cur_heads s) ''FH'' v\<rparr>))
        else Inr s
      else Inr s)"

text \<open>
  The test of a boundary line, the first \<^verbatim>\<open>if\<close> of the loop body (\<open>new_org\<close>: flush
  and reset on a boundary line), and the whole body: the boundary test is an \<^verbatim>\<open>if\<close>
  of its own, followed by the \<^verbatim>\<open>if\<close>/\<^verbatim>\<open>elif\<close> of the two data lines.
\<close>

definition is_boundary :: "string list \<Rightarrow> bool" where
  "is_boundary line_parts \<longleftrightarrow> length line_parts = 1 \<and> line_parts ! 0 = ''U:-1''"

definition new_org :: "pstate \<Rightarrow> string list \<Rightarrow> py_error + pstate" where
  "new_org s line_parts =
     (if is_boundary line_parts then
        (case flush s of
           Inl e \<Rightarrow> Inl e
         | Inr st \<Rightarrow> Inr \<lparr>org_states = st, org_idx = Some 0, cur_heads = [], cur_regs = []\<rparr>)
      else Inr s)"

definition avida_line :: "pstate \<Rightarrow> string \<Rightarrow> py_error + pstate" where
  "avida_line s line0 =
     (let line = strip line0 in
      if length line = 0 then Inr s
      else
        let line_parts = split line in
        case new_org s line_parts of
          Inl e \<Rightarrow> Inl e
        | Inr s1 \<Rightarrow>
            if line_parts ! 0 = ''CPU'' then for_each cpu_part s1 line_parts
            else if take 7 (line_parts ! 0) = ''R-Head:'' then for_each head_part s1 line_parts
            else Inr s1)"

definition avida_lines :: "string list \<Rightarrow> py_error + pstate" where
  "avida_lines ls = for_each avida_line init_pstate ls"

definition parse_avida_trace :: "string list \<Rightarrow> py_error + trace_store" where
  "parse_avida_trace ls =
     (case avida_lines ls of Inl e \<Rightarrow> Inl e | Inr s \<Rightarrow> flush s)"

section \<open>The comparator: \<^verbatim>\<open>compare_org_trace\<close>\<close>

text \<open>
  The four \<^verbatim>\<open>print\<close> calls of the method, with the values they print. The method
  returns the step after each of them, and \<^verbatim>\<open>None\<close> when the loop over the steps
  ends; \<open>printed\<close> is what went to standard output and \<open>returned\<close> is the value
  handed to the caller.
\<close>

datatype report =
    EndOfOther nat
  | RegMismatch nat nat
  | HeadMissing string nat
  | HeadMismatch string nat

record cmp_result =
  printed :: "report list"
  returned :: "nat option"

text \<open>\<^verbatim>\<open>for reg_idx in range(6)\<close>, the list being the indices still to visit.\<close>

fun reg_loop :: "OrgState \<Rightarrow> OrgState \<Rightarrow> nat \<Rightarrow> nat list \<Rightarrow> py_error + report option" where
  "reg_loop a b step [] = Inr None"
| "reg_loop a b step (reg_idx # rest) =
     (case get_item (regs a) (int reg_idx) of
        Inl e \<Rightarrow> Inl e
      | Inr x \<Rightarrow>
          (case get_item (regs b) (int reg_idx) of
             Inl e \<Rightarrow> Inl e
           | Inr y \<Rightarrow>
               if x \<noteq> y then Inr (Some (RegMismatch reg_idx step))
               else reg_loop a b step rest))"

text \<open>\<^verbatim>\<open>for head_name in self_state.heads.keys()\<close>\<close>

fun head_loop :: "OrgState \<Rightarrow> OrgState \<Rightarrow> nat \<Rightarrow> string list \<Rightarrow> py_error + report option" where
  "head_loop a b step [] = Inr None"
| "head_loop a b step (head_name # rest) =
     (if head_name \<notin> set (dict_keys (heads b)) then Inr (Some (HeadMissing head_name step))
      else
        (case dict_get (heads a) head_name of
           Inl e \<Rightarrow> Inl e
         | Inr x \<Rightarrow>
             (case dict_get (heads b) head_name of
                Inl e \<Rightarrow> Inl e
              | Inr y \<Rightarrow>
                  if x \<noteq> y then Inr (Some (HeadMismatch head_name step))
                  else head_loop a b step rest)))"

text \<open>The two inner loops on the snapshots of one step; \<open>None\<close> is no divergence there.\<close>

definition compare_step :: "OrgState \<Rightarrow> OrgState \<Rightarrow> nat \<Rightarrow> py_error + report option" where
  "compare_step self_state other_state step =
     (case reg_loop self_state other_state step [0..<6] of
        Inl e \<Rightarrow> Inl e
      | Inr (Some r) \<Rightarrow> Inr (Some r)
      | Inr None \<Rightarrow> head_loop self_state other_state step (dict_keys (heads self_state)))"

text \<open>The loop over the steps, the list being the steps still to visit.\<close>

fun step_loop :: "trace_store \<Rightarrow> trace_store \<Rightarrow> int \<Rightarrow> nat list \<Rightarrow> py_error + cmp_result" where
  "step_loop self other i [] = Inr \<lparr>printed = [], returned = None\<rparr>"
| "step_loop self other i (step # rest) =
     (case get_item other i of
        Inl e \<Rightarrow> Inl e
      | Inr b \<Rightarrow>
          if step \<ge> length b then Inr \<lparr>printed = [EndOfOther step], returned = Some step\<rparr>
          else
            (case get_item self i of
               Inl e \<Rightarrow> Inl e
             | Inr a \<Rightarrow>
                 (case get_item a (int step) of
                    Inl e \<Rightarrow> Inl e
                  | Inr self_state \<Rightarrow>
                      (case get_item b (int step) of
                         Inl e \<Rightarrow> Inl e
                       | Inr other_state \<Rightarrow>
                           (case compare_step self_state other_state step of
                              Inl e \<Rightarrow> Inl e
                            | Inr (Some r) \<Rightarrow> Inr \<lparr>printed = [r], returned = Some step\<rparr>
                            | Inr None \<Rightarrow> step_loop self other i rest)))))"

definition compare_org_trace :: "trace_store \<Rightarrow> trace_store \<Rightarrow> int \<Rightarrow> py_error + cmp_result" where
  "compare_org_trace self other i =
     (case get_item self i of
        Inl e \<Rightarrow> Inl e
      | Inr a \<Rightarrow> step_loop self other i [0..<length a])"

section \<open>Predicates used to state the properties\<close>

text \<open>
  A snapshot carries the six registers the comparator reads. Two snapshots show no
  mismatch when no register among the first six that both hold differs and every head of
  the first is a head of the second with the same value. Two step sequences agree before
  step \<open>n\<close> when every earlier pair of snapshots carries six registers and shows no
  mismatch; \<open>report_step\<close> is the step a printed report names.
\<close>

definition six_regs :: "OrgState \<Rightarrow> bool" where
  "six_regs s \<longleftrightarrow> 6 \<le> length (regs s)"

definition no_mismatch :: "OrgState \<Rightarrow> OrgState \<Rightarrow> bool" where
  "no_mismatch a b \<longleftrightarrow>
     (\<forall>r\<in>set [0..<min 6 (min (length (regs a)) (length (regs b)))]. regs a ! r = regs b ! r) \<and>
     (\<forall>k\<in>set (dict_keys (heads a)).
        k \<in> set (dict_keys (heads b)) \<and> map_of (heads b) k = map_of (heads a) k)"

definition agree_before :: "OrgState list \<Rightarrow> OrgState list \<Rightarrow> nat \<Rightarrow> bool" where
  "agree_before a b n \<longleftrightarrow>
     (\<forall>s\<in>set [0..<n]. six_regs (a ! s) \<and> six_regs (b ! s) \<and> no_mismatch (a ! s) (b ! s))"

fun report_step :: "report \<Rightarrow> nat" where
  "report_step (EndOfOther s) = s"
| "report_step (RegMismatch r s) = s"
| "report_step (HeadMissing h s) = s"
| "report_step (HeadMismatch h s) = s"

text \<open>
  Step \<open>n\<close> of organism \<open>i\<close> is compared when the index is one of both stores, both
  sequences hold the step and the sequences agree before it. At a compared step the
  registers run out when a snapshot carries fewer than six and the registers both
  snapshots hold are equal; registers 0 to 5 are equal when both carry six and the first
  six coincide.
\<close>

definition reaches :: "trace_store \<Rightarrow> trace_store \<Rightarrow> int \<Rightarrow> nat \<Rightarrow> bool" where
  "reaches self other i n \<longleftrightarrow>
     0 \<le> i \<and> i < int (length self) \<and> i < int (length other) \<and>
     n < length (self ! nat i) \<and> n < length (other ! nat i) \<and>
     agree_before (self ! nat i) (other ! nat i) n"

definition regs_run_out :: "OrgState \<Rightarrow> OrgState \<Rightarrow> bool" where
  "regs_run_out a b \<longleftrightarrow>
     \<not> (six_regs a \<and> six_regs b) \<and>
     (\<forall>r\<in>set [0..<min (length (regs a)) (length (regs b))]. regs a ! r = regs b ! r)"

definition regs_0_5_equal :: "OrgState \<Rightarrow> OrgState \<Rightarrow> bool" where
  "regs_0_5_equal a b \<longleftrightarrow> six_regs a \<and> six_regs b \<and> take 6 (regs a) = take 6 (regs b)"

text \<open>
  Register \<open>r\<close> is the first mismatch of two snapshots when it is one of registers 0 to
  5, both snapshots hold it with different values, and every register before it is equal.
\<close>

definition first_mismatch :: "OrgState \<Rightarrow> OrgState \<Rightarrow> nat \<Rightarrow> bool" where
  "first_mismatch a b r \<longleftrightarrow>
     r < 6 \<and> r < length (regs a) \<and> r < length (regs b) \<and> regs a ! r \<noteq> regs b ! r \<and>
     (\<forall>q\<in>set [0..<r]. regs a ! q = regs b ! q)"

text \<open>
  The tokens whose value \<^verbatim>\<open>int\<close> rejects. In Format-A: a token of a \<^verbatim>\<open>CPU\<close> line
  that matches the instruction-pointer or the register pattern, and a token of a heads
  line that matches one of the three head patterns. In Format-B: position \<open>i\<close> of a
  heads line holds a head pair when the token there passes the test of the scan, and the
  scan reaches a bad pair at position \<open>2 * k\<close> when every pair before it is a head pair
  with an integer value and that one is a head pair whose value \<^verbatim>\<open>int\<close> rejects.
\<close>

definition bad_cpu_token :: "string \<Rightarrow> bool" where
  "bad_cpu_token p \<longleftrightarrow>
     length p > 3 \<and> (take 3 p = ''IP:'' \<or> take 2 (drop 1 p) = ''X:'') \<and> isl (py_int (drop 3 p))"

definition bad_head_token :: "string \<Rightarrow> bool" where
  "bad_head_token q \<longleftrightarrow>
     length q \<ge> 8 \<and>
     (take 6 q = ''R-Head'' \<or> take 6 q = ''W-Head'' \<or> take 6 q = ''F-Head'') \<and>
     isl (py_int (drop 7 q))"

definition head_pair :: "string list \<Rightarrow> nat \<Rightarrow> bool" where
  "head_pair ps i \<longleftrightarrow>
     i + 1 < length ps \<and> ps ! i \<noteq> [] \<and> last (ps ! i) = CHR '':'' \<and> hd (ps ! i) \<noteq> CHR ''(''"

definition bad_pair_reached :: "string list \<Rightarrow> nat \<Rightarrow> bool" where
  "bad_pair_reached ps k \<longleftrightarrow>
     (\<forall>m\<in>set [0..<k]. head_pair ps (2 * m) \<and> \<not> isl (py_int (ps ! (2 * m + 1)))) \<and>
     head_pair ps (2 * k) \<and> isl (py_int (ps ! (2 * k + 1)))"

text \<open>The state of a parse pass that has no organism in progress and an empty store.\<close>

definition nothing_recorded :: "pstate \<Rightarrow> bool" where
  "nothing_recorded s \<longleftrightarrow> org_idx s = None \<and> org_states s = []"

section \<open>Growth loops and list access\<close>

lemma grow_orgs_eq: "grow_orgs st i = st @ replicate (Suc i - length st) []"
proof (induction st i rule: grow_orgs.induct)
  case (1 st i)
  show ?case
  proof (cases "length st \<le> i")
    case True
    then have "grow_orgs st i = grow_orgs (st @ [[]]) i"
      by (subst grow_orgs.simps) simp
    also have "\<dots> = (st @ [[]]) @ replicate (Suc i - length (st @ [[]])) []"
      using 1 True by simp
    also have "\<dots> = st @ replicate (Suc i - length st) []"
      using True by (simp add: Suc_diff_le replicate_Suc [symmetric] del: replicate_Suc)
    finally show ?thesis .
  next
    case False
    then show ?thesis by (subst grow_orgs.simps) simp
  qed
qed

lemma grow_regs_eq: "grow_regs rs i = rs @ replicate (nat (i + 1 - int (length rs))) 0"
proof (induction rs i rule: grow_regs.induct)
  case (1 rs i)
  show ?case
  proof (cases "int (length rs) \<le> i")
    case True
    then have "grow_regs rs i = grow_regs (rs @ [0]) i"
      by (subst grow_regs.simps) simp
    also have "\<dots> = (rs @ [0]) @ replicate (nat (i + 1 - int (length (rs @ [0])))) 0"
      using 1 True by simp
    also have "\<dots> = rs @ replicate (Suc (nat (i - int (length rs)))) 0"
      by simp
    also have "Suc (nat (i - int (length rs))) = nat (i + 1 - int (length rs))"
      using True by simp
    finally show ?thesis .
  next
    case False
    then show ?thesis by (subst grow_regs.simps) simp
  qed
qed

lemma get_item_nat:
  "get_item xs (int n) = (if n < length xs then Inr (xs ! n) else Inl IndexError)"
  by (simp add: get_item_def list_index_def)

lemma get_item_valid: "0 \<le> i \<Longrightarrow> i < int (length xs) \<Longrightarrow> get_item xs i = Inr (xs ! nat i)"
  by (simp add: get_item_def list_index_def)

section \<open>The loops of the comparator\<close>

lemma reg_loop_append:
  "reg_loop a b step (xs @ ys) =
     (case reg_loop a b step xs of
        Inl e \<Rightarrow> Inl e
      | Inr None \<Rightarrow> reg_loop a b step ys
      | Inr (Some r) \<Rightarrow> Inr (Some r))"
  by (induction xs) (auto simp: get_item_nat split: sum.splits option.splits)

lemma reg_loop_agree:
  "\<forall>r\<in>set rs. r < length (regs a) \<and> r < length (regs b) \<and> regs a ! r = regs b ! r
   \<Longrightarrow> reg_loop a b step rs = Inr None"
  by (induction rs) (auto simp: get_item_nat)

lemma reg_loop_None:
  "reg_loop a b step rs = Inr None \<Longrightarrow>
   \<forall>r\<in>set rs. r < length (regs a) \<and> r < length (regs b) \<and> regs a ! r = regs b ! r"
  by (induction rs) (auto simp: get_item_nat split: if_splits)

lemma head_loop_append:
  "head_loop a b step (xs @ ys) =
     (case head_loop a b step xs of
        Inl e \<Rightarrow> Inl e
      | Inr None \<Rightarrow> head_loop a b step ys
      | Inr (Some r) \<Rightarrow> Inr (Some r))"
  by (induction xs) (auto split: sum.splits option.splits)

lemma dict_get_key: "k \<in> set (dict_keys d) \<Longrightarrow> \<exists>v. dict_get d k = Inr v \<and> map_of d k = Some v"
  by (auto simp: dict_get_def dict_keys_def map_of_eq_None_iff split: option.splits)

lemma head_loop_agree:
  "\<forall>k\<in>set ks. k \<in> set (dict_keys (heads a)) \<and> k \<in> set (dict_keys (heads b))
        \<and> map_of (heads b) k = map_of (heads a) k
   \<Longrightarrow> head_loop a b step ks = Inr None"
proof (induction ks)
  case Nil
  show ?case by simp
next
  case (Cons k ks)
  then obtain v w where "dict_get (heads a) k = Inr v" "map_of (heads a) k = Some v"
     "dict_get (heads b) k = Inr w" "map_of (heads b) k = Some w"
    using dict_get_key [of k "heads a"] dict_get_key [of k "heads b"] by auto
  with Cons show ?case by simp
qed

lemma head_loop_None:
  "head_loop a b step ks = Inr None \<Longrightarrow> set ks \<subseteq> set (dict_keys (heads a)) \<Longrightarrow>
   \<forall>k\<in>set ks. k \<in> set (dict_keys (heads b)) \<and> map_of (heads b) k = map_of (heads a) k"
proof (induction ks)
  case Nil
  show ?case by simp
next
  case (Cons k ks)
  from Cons.prems(2) obtain v where v: "dict_get (heads a) k = Inr v" "map_of (heads a) k = Some v"
    using dict_get_key [of k "heads a"] by auto
  from Cons.prems(1) have kb: "k \<in> set (dict_keys (heads b))"
    by (auto split: if_splits)
  then obtain w where w: "dict_get (heads b) k = Inr w" "map_of (heads b) k = Some w"
    using dict_get_key [of k "heads b"] by auto
  from Cons.prems(1) kb v w have "v = w" and rest: "head_loop a b step ks = Inr None"
    by (auto split: if_splits)
  with Cons.IH Cons.prems(2) kb v w show ?case by auto
qed

lemma head_loop_no_error:
  "set ks \<subseteq> set (dict_keys (heads a)) \<Longrightarrow> \<exists>r. head_loop a b step ks = Inr r"
proof (induction ks)
  case Nil
  show ?case by simp
next
  case (Cons k ks)
  then obtain v where v: "dict_get (heads a) k = Inr v"
    using dict_get_key [of k "heads a"] by auto
  show ?case
  proof (cases "k \<in> set (dict_keys (heads b))")
    case True
    then obtain w where w: "dict_get (heads b) k = Inr w"
      using dict_get_key [of k "heads b"] by auto
    with True v Cons show ?thesis by auto
  next
    case False
    then show ?thesis by simp
  qed
qed

lemma step_loop_append:
  "step_loop self other i (xs @ ys) =
     (case step_loop self other i xs of
        Inl e \<Rightarrow> Inl e
      | Inr r \<Rightarrow> (case returned r of None \<Rightarrow> step_loop self other i ys | Some n \<Rightarrow> Inr r))"
  by (induction xs) (auto split: sum.splits option.splits)

lemma step_loop_agree:
  "get_item self i = Inr a \<Longrightarrow> get_item other i = Inr b \<Longrightarrow>
   \<forall>s\<in>set xs. s < length a \<and> s < length b \<and> compare_step (a ! s) (b ! s) s = Inr None
   \<Longrightarrow> step_loop self other i xs = Inr \<lparr>printed = [], returned = None\<rparr>"
  by (induction xs) (auto simp: get_item_nat)

lemma reg_loop_no_error:
  "\<forall>r\<in>set rs. r < length (regs a) \<and> r < length (regs b) \<Longrightarrow> \<exists>r. reg_loop a b step rs = Inr r"
  by (induction rs) (auto simp: get_item_nat)

lemma reg_loop_Some:
  "reg_loop a b step rs = Inr (Some rep) \<Longrightarrow> \<exists>k\<in>set rs. rep = RegMismatch k step"
  by (induction rs) (auto simp: get_item_nat split: if_splits)

lemma head_loop_Some:
  "head_loop a b step ks = Inr (Some rep) \<Longrightarrow>
   \<exists>k\<in>set ks. rep = HeadMissing k step \<or> rep = HeadMismatch k step"
  by (induction ks) (auto split: if_splits sum.splits)

lemma compare_step_None_iff:
  "compare_step a b step = Inr None \<longleftrightarrow> six_regs a \<and> six_regs b \<and> no_mismatch a b"
proof
  assume h: "compare_step a b step = Inr None"
  then have r: "reg_loop a b step [0..<6] = Inr None"
    and k: "head_loop a b step (dict_keys (heads a)) = Inr None"
    by (auto simp: compare_step_def split: sum.splits option.splits)
  from reg_loop_None [OF r]
  have rs: "\<forall>r\<in>{0..<6}. r < length (regs a) \<and> r < length (regs b) \<and> regs a ! r = regs b ! r"
    by simp
  then have "5 < length (regs a)" "5 < length (regs b)" by auto
  with rs head_loop_None [OF k] show "six_regs a \<and> six_regs b \<and> no_mismatch a b"
    by (auto simp: six_regs_def no_mismatch_def)
next
  assume h: "six_regs a \<and> six_regs b \<and> no_mismatch a b"
  then have "reg_loop a b step [0..<6] = Inr None"
    by (intro reg_loop_agree) (auto simp: six_regs_def no_mismatch_def)
  moreover from h have "head_loop a b step (dict_keys (heads a)) = Inr None"
    by (intro head_loop_agree) (auto simp: no_mismatch_def)
  ultimately show "compare_step a b step = Inr None"
    by (simp add: compare_step_def)
qed

lemma compare_step_no_error:
  assumes "six_regs a" "six_regs b"
  shows "\<exists>r. compare_step a b step = Inr r"
proof -
  from assms obtain r where r: "reg_loop a b step [0..<6] = Inr r"
    using reg_loop_no_error [of "[0..<6]" a b step] by (auto simp: six_regs_def)
  obtain h where h: "head_loop a b step (dict_keys (heads a)) = Inr h"
    using head_loop_no_error [of "dict_keys (heads a)" a b step] by auto
  from r h show ?thesis by (cases r) (simp_all add: compare_step_def)
qed

lemma compare_step_Some:
  "compare_step a b step = Inr (Some rep) \<Longrightarrow> report_step rep = step"
  by (auto simp: compare_step_def split: sum.splits option.splits
           dest!: reg_loop_Some head_loop_Some)

lemma compare_at:
  assumes a: "get_item self i = Inr a" and b: "get_item other i = Inr b"
    and n: "n < length a" "n \<le> length b" and ag: "agree_before a b n"
  shows "compare_org_trace self other i =
     (if length b \<le> n then Inr \<lparr>printed = [EndOfOther n], returned = Some n\<rparr>
      else case compare_step (a ! n) (b ! n) n of
             Inl e \<Rightarrow> Inl e
           | Inr (Some r) \<Rightarrow> Inr \<lparr>printed = [r], returned = Some n\<rparr>
           | Inr None \<Rightarrow> step_loop self other i [Suc n..<length a])"
proof -
  have split: "[0..<length a] = [0..<n] @ n # [Suc n..<length a]"
    using n(1) by (metis less_imp_le_nat upt_add_eq_append upt_conv_Cons zero_le
        le_add_diff_inverse plus_nat.add_0)
  have pre: "step_loop self other i [0..<n] = Inr \<lparr>printed = [], returned = None\<rparr>"
    using a b n ag
    by (intro step_loop_agree) (auto simp: agree_before_def compare_step_None_iff)
  have "compare_org_trace self other i = step_loop self other i (n # [Suc n..<length a])"
    by (simp add: compare_org_trace_def a split step_loop_append pre)
  then show ?thesis
    using a b n by (simp add: get_item_nat)
qed

lemma step_loop_shape:
  "step_loop self other i xs = Inr r \<Longrightarrow>
     (printed r = [] \<and> returned r = None) \<or>
     (\<exists>rep. printed r = [rep] \<and> returned r = Some (report_step rep))"
proof (induction xs)
  case Nil
  then show ?case by auto
next
  case (Cons x xs)
  then show ?case
    by (auto split: sum.splits if_splits option.splits dest: compare_step_Some)
qed

lemma step_loop_no_error:
  "get_item self i = Inr a \<Longrightarrow> get_item other i = Inr b \<Longrightarrow>
   \<forall>s\<in>set xs. s < length a \<and> (s < length b \<longrightarrow> six_regs (a ! s) \<and> six_regs (b ! s))
   \<Longrightarrow> \<exists>r. step_loop self other i xs = Inr r"
proof (induction xs)
  case Nil
  show ?case by simp
next
  case (Cons x xs)
  show ?case
  proof (cases "x < length b")
    case True
    with Cons.prems obtain r where "compare_step (a ! x) (b ! x) x = Inr r"
      using compare_step_no_error [of "a ! x" "b ! x" x] by auto
    with Cons True show ?thesis
      by (cases r) (auto simp: get_item_nat)
  next
    case False
    with Cons.prems show ?thesis by simp
  qed
qed

lemma reaches_compare:
  assumes "reaches self other i n"
  shows "compare_org_trace self other i =
     (case compare_step (self ! nat i ! n) (other ! nat i ! n) n of
        Inl e \<Rightarrow> Inl e
      | Inr (Some r) \<Rightarrow> Inr \<lparr>printed = [r], returned = Some n\<rparr>
      | Inr None \<Rightarrow> step_loop self other i [Suc n..<length (self ! nat i)])"
proof -
  from assms have a: "get_item self i = Inr (self ! nat i)"
    and b: "get_item other i = Inr (other ! nat i)"
    by (simp_all add: get_item_valid reaches_def)
  from assms have "n < length (self ! nat i)" "n \<le> length (other ! nat i)"
    "agree_before (self ! nat i) (other ! nat i) n" "\<not> length (other ! nat i) \<le> n"
    by (simp_all add: reaches_def)
  then show ?thesis
    using compare_at [OF a b, of n] by simp
qed

lemma reg_loop_short:
  assumes short: "\<not> (six_regs a \<and> six_regs b)"
    and eq: "\<forall>r<min (length (regs a)) (length (regs b)). regs a ! r = regs b ! r"
  shows "reg_loop a b step [0..<6] = Inl IndexError"
proof -
  define m where "m = min (length (regs a)) (length (regs b))"
  from short have m: "m < 6" by (auto simp: m_def six_regs_def)
  then have split: "[0..<6] = [0..<m] @ m # [Suc m..<6]"
    by (metis less_imp_le_nat upt_add_eq_append upt_conv_Cons zero_le
        le_add_diff_inverse plus_nat.add_0)
  have pre: "reg_loop a b step [0..<m] = Inr None"
    using eq by (intro reg_loop_agree) (auto simp: m_def)
  have "reg_loop a b step (m # rest) = Inl IndexError" for rest
    by (auto simp: get_item_nat m_def min_def)
  then show ?thesis
    by (simp only: split reg_loop_append pre sum.case option.case)
qed

lemma take_get_item:
  "take n xs = take n ys \<Longrightarrow> r < n \<Longrightarrow> get_item xs (int r) = get_item ys (int r)"
proof -
  assume t: "take n xs = take n ys" and r: "r < n"
  have "length (take n xs) = length (take n ys)" using t by simp
  then have l: "r < length xs \<longleftrightarrow> r < length ys" using r by auto
  have "r < length xs \<Longrightarrow> xs ! r = ys ! r"
    using t r by (metis nth_take)
  with l show ?thesis by (auto simp: get_item_nat)
qed

lemma reg_loop_take:
  "take 6 (regs a) = take 6 (regs a') \<Longrightarrow> take 6 (regs b) = take 6 (regs b') \<Longrightarrow>
   \<forall>r\<in>set rs. r < 6 \<Longrightarrow> reg_loop a b step rs = reg_loop a' b' step rs"
proof (induction rs)
  case Nil
  show ?case by simp
next
  case (Cons r rs)
  then have r: "r < 6" and ih: "reg_loop a b step rs = reg_loop a' b' step rs" by simp_all
  have "get_item (regs a) (int r) = get_item (regs a') (int r)"
    using Cons.prems(1) r by (rule take_get_item)
  moreover have "get_item (regs b) (int r) = get_item (regs b') (int r)"
    using Cons.prems(2) r by (rule take_get_item)
  ultimately show ?case using ih by (simp split: sum.splits)
qed

lemma key_in_dict: "k \<in> set (dict_keys d) \<longleftrightarrow> map_of d k \<noteq> None"
  by (simp add: dict_keys_def map_of_eq_None_iff)

lemma head_loop_restrict:
  "heads a = heads a' \<Longrightarrow> \<forall>k\<in>set ks. map_of (heads b) k = map_of (heads b') k \<Longrightarrow>
   head_loop a b step ks = head_loop a' b' step ks"
proof (induction ks)
  case Nil
  show ?case by simp
next
  case (Cons k ks)
  then have ih: "head_loop a b step ks = head_loop a' b' step ks"
    and k: "map_of (heads b) k = map_of (heads b') k" by simp_all
  from k have "k \<in> set (dict_keys (heads b)) \<longleftrightarrow> k \<in> set (dict_keys (heads b'))"
    by (simp add: key_in_dict)
  moreover from k have "dict_get (heads b) k = dict_get (heads b') k"
    by (simp add: dict_get_def)
  ultimately show ?case using ih Cons.prems(1) by (simp split: sum.splits)
qed

lemma compare_step_restrict:
  assumes "take 6 (regs a) = take 6 (regs a')" "heads a = heads a'"
    "take 6 (regs b) = take 6 (regs b')"
    "\<forall>k\<in>set (dict_keys (heads a)). map_of (heads b) k = map_of (heads b') k"
  shows "compare_step a b step = compare_step a' b' step"
proof -
  have "reg_loop a b step [0..<6] = reg_loop a' b' step [0..<6]"
    using assms(1,3) by (intro reg_loop_take) auto
  moreover have "head_loop a b step (dict_keys (heads a)) = head_loop a' b' step (dict_keys (heads a'))"
    using assms(2,4) head_loop_restrict [of a a' "dict_keys (heads a)" b b' step] by simp
  ultimately show ?thesis by (simp only: compare_step_def)
qed

lemma reg_loop_equal6:
  assumes "six_regs a" "six_regs b" "take 6 (regs a) = take 6 (regs b)"
  shows "reg_loop a b step [0..<6] = Inr None"
proof -
  have "regs a ! r = regs b ! r" if "r < 6" for r
    using assms(3) that by (metis nth_take)
  with assms(1,2) show ?thesis
    by (intro reg_loop_agree) (auto simp: six_regs_def)
qed

lemma compare_step_missing:
  assumes r: "six_regs a" "six_regs b" "take 6 (regs a) = take 6 (regs b)"
    and ks: "dict_keys (heads a) = ks @ h # ks'"
    and h: "h \<notin> set (dict_keys (heads b))"
    and pre: "\<forall>k\<in>set ks. k \<in> set (dict_keys (heads b)) \<and> map_of (heads b) k = map_of (heads a) k"
  shows "compare_step a b step = Inr (Some (HeadMissing h step))"
proof -
  have "head_loop a b step ks = Inr None"
    using pre ks by (intro head_loop_agree) auto
  then have "head_loop a b step (ks @ h # ks') = Inr (Some (HeadMissing h step))"
    using h by (simp add: head_loop_append)
  with reg_loop_equal6 [OF r] ks show ?thesis
    by (simp add: compare_step_def)
qed

lemma compare_step_head_based:
  assumes r: "six_regs a" "six_regs b" "take 6 (regs a) = take 6 (regs b)"
    and h: "h \<in> set (dict_keys (heads a))" "h \<notin> set (dict_keys (heads b))"
  shows "\<exists>k. compare_step a b step = Inr (Some (HeadMissing k step))
           \<or> compare_step a b step = Inr (Some (HeadMismatch k step))"
proof -
  obtain res where res: "head_loop a b step (dict_keys (heads a)) = Inr res"
    using head_loop_no_error [of "dict_keys (heads a)" a b step] by auto
  have "res \<noteq> None"
  proof
    assume "res = None"
    with res head_loop_None [of a b step "dict_keys (heads a)"] h show False by auto
  qed
  then obtain rep where rep: "res = Some rep" by auto
  with res have hl: "head_loop a b step (dict_keys (heads a)) = Inr (Some rep)"
    by simp
  have cs: "compare_step a b step = Inr (Some rep)"
    by (simp add: compare_step_def reg_loop_equal6 [OF r] hl)
  from head_loop_Some [OF hl]
  obtain k where "rep = HeadMissing k step \<or> rep = HeadMismatch k step" by blast
  with cs show ?thesis by blast
qed

lemma reg_loop_first_mismatch:
  assumes "first_mismatch a b r"
  shows "reg_loop a b step [0..<6] = Inr (Some (RegMismatch r step))"
proof -
  from assms have r: "r < 6" "r < length (regs a)" "r < length (regs b)"
    and ne: "regs a ! r \<noteq> regs b ! r"
    and eq: "\<forall>q\<in>set [0..<r]. regs a ! q = regs b ! q"
    by (simp_all add: first_mismatch_def)
  from r(1) have split: "[0..<6] = [0..<r] @ r # [Suc r..<6]"
    by (metis less_imp_le_nat upt_add_eq_append upt_conv_Cons zero_le
        le_add_diff_inverse plus_nat.add_0)
  have pre: "reg_loop a b step [0..<r] = Inr None"
    using eq r by (intro reg_loop_agree) auto
  have "reg_loop a b step (r # rest) = Inr (Some (RegMismatch r step))" for rest
    using r ne by (simp add: get_item_nat)
  then show ?thesis
    by (simp only: split reg_loop_append pre sum.case option.case)
qed

lemma compare_step_first_mismatch:
  "first_mismatch a b r \<Longrightarrow> compare_step a b step = Inr (Some (RegMismatch r step))"
  by (simp add: compare_step_def reg_loop_first_mismatch)

section \<open>The tokens of a line and the loops of the parsers\<close>

text \<open>
  A line that is not blank after \<^verbatim>\<open>strip\<close> has a first token, and no token is empty:
  \<^verbatim>\<open>line_parts[0]\<close>, \<^verbatim>\<open>line_parts[0][0]\<close> and \<^verbatim>\<open>line_part[-1]\<close> never raise in
  the parsers.
\<close>

lemma split_acc_tokens: "t \<in> set (split_acc cur cs) \<Longrightarrow> t \<noteq> []"
  by (induction cs arbitrary: cur) (auto split: if_splits)

lemma split_acc_nonempty:
  "cur \<noteq> [] \<or> (\<exists>c\<in>set cs. \<not> is_space c) \<Longrightarrow> split_acc cur cs \<noteq> []"
  by (induction cs arbitrary: cur) auto

lemma strip_has_char: "strip s \<noteq> [] \<Longrightarrow> \<exists>c\<in>set (strip s). \<not> is_space c"
proof -
  assume ne: "strip s \<noteq> []"
  let ?u = "dropWhile is_space (rev (dropWhile is_space s))"
  from ne have u: "?u \<noteq> []" by (simp add: strip_def)
  then have "\<not> is_space (hd ?u)" by (rule hd_dropWhile)
  moreover from u have "hd ?u \<in> set (strip s)" by (simp add: strip_def)
  ultimately show ?thesis by blast
qed

lemma split_line_parts:
  "strip l \<noteq> [] \<Longrightarrow> split (strip l) \<noteq> [] \<and> (\<forall>t\<in>set (split (strip l)). t \<noteq> [])"
  using split_acc_nonempty [of "[]" "strip l"] strip_has_char [of l] split_acc_tokens
  by (auto simp: split_def)

lemma py_int_error: "py_int t = Inl e \<Longrightarrow> e = ValueError"
  by (auto simp: py_int_def Let_def split: list.splits if_splits option.splits)

lemma grow_orgs_len: "i < length (grow_orgs st i)"
  by (simp add: grow_orgs_eq)

lemma flush_Some:
  assumes "org_idx s = Some i"
  shows "flush s =
     Inr ((grow_orgs (org_states s) i)
            [i := grow_orgs (org_states s) i ! i
                    @ [\<lparr>idx = i, heads = cur_heads s, regs = cur_regs s\<rparr>]])"
  using assms grow_orgs_len [of i "org_states s"] by (simp add: flush_def get_item_nat Let_def)

lemma cpu_part_keeps:
  "cpu_part s p = Inr s' \<Longrightarrow> org_idx s' = org_idx s \<and> org_states s' = org_states s"
  by (auto simp: cpu_part_def Let_def split: if_splits sum.splits)

lemma head_part_keeps:
  "head_part s p = Inr s' \<Longrightarrow> org_idx s' = org_idx s \<and> org_states s' = org_states s"
  by (auto simp: head_part_def split: if_splits sum.splits)

lemma for_each_cpu_keeps:
  "for_each cpu_part s ps = Inr s' \<Longrightarrow> org_idx s' = org_idx s \<and> org_states s' = org_states s"
proof (induction ps arbitrary: s)
  case Nil
  then show ?case by simp
next
  case (Cons p ps)
  then show ?case by (auto split: sum.splits dest: cpu_part_keeps)
qed

lemma for_each_head_keeps:
  "for_each head_part s ps = Inr s' \<Longrightarrow> org_idx s' = org_idx s \<and> org_states s' = org_states s"
proof (induction ps arbitrary: s)
  case Nil
  then show ?case by simp
next
  case (Cons p ps)
  then show ?case by (auto split: sum.splits dest: head_part_keeps)
qed

lemma avida_line_no_boundary:
  assumes nb: "\<not> is_boundary (split (strip l))"
    and run: "avida_line s l = Inr s'" and inv: "nothing_recorded s"
  shows "nothing_recorded s'"
proof (cases "strip l = []")
  case True
  with run inv show ?thesis by (simp add: avida_line_def)
next
  case False
  let ?ps = "split (strip l)"
  have cpu: "for_each cpu_part s ?ps = Inr s' \<Longrightarrow> nothing_recorded s'"
    using inv for_each_cpu_keeps [of s ?ps s'] by (simp add: nothing_recorded_def)
  have hd: "for_each head_part s ?ps = Inr s' \<Longrightarrow> nothing_recorded s'"
    using inv for_each_head_keeps [of s ?ps s'] by (simp add: nothing_recorded_def)
  from run False nb cpu hd inv show ?thesis
    by (auto simp: avida_line_def new_org_def Let_def split: if_splits)
qed

lemma avida_lines_no_boundary:
  "\<forall>l\<in>set ls. \<not> is_boundary (split (strip l)) \<Longrightarrow>
   for_each avida_line s ls = Inr s' \<Longrightarrow> nothing_recorded s \<Longrightarrow> nothing_recorded s'"
proof (induction ls arbitrary: s)
  case Nil
  then show ?case by simp
next
  case (Cons l ls)
  then show ?case
    by (auto split: sum.splits dest: avida_line_no_boundary)
qed

lemma py_int_isl: "isl (py_int t) \<Longrightarrow> py_int t = Inl ValueError"
  by (cases "py_int t") (auto dest: py_int_error)

lemma cpu_part_bad: "bad_cpu_token p \<Longrightarrow> cpu_part s p = Inl ValueError"
  by (auto simp: bad_cpu_token_def cpu_part_def Let_def dest!: py_int_isl)

lemma head_part_bad: "bad_head_token q \<Longrightarrow> head_part s q = Inl ValueError"
  by (auto simp: bad_head_token_def head_part_def dest!: py_int_isl)

lemma head_part_error: "head_part s q = Inl e \<Longrightarrow> e = ValueError"
  by (auto simp: head_part_def split: if_splits sum.splits dest: py_int_error)

lemma for_each_head_error: "for_each head_part s ts = Inl e \<Longrightarrow> e = ValueError"
proof (induction ts arbitrary: s)
  case Nil
  then show ?case by simp
next
  case (Cons t ts)
  then show ?case by (auto split: sum.splits dest: head_part_error)
qed

lemma for_each_raises:
  assumes "\<And>s. \<exists>e. f s t = Inl e"
  shows "t \<in> set ts \<Longrightarrow> \<exists>e. for_each f s ts = Inl e"
proof (induction ts arbitrary: s)
  case Nil
  then show ?case by simp
next
  case (Cons u us)
  show ?case
  proof (cases "f s u")
    case (Inl e)
    then show ?thesis by simp
  next
    case (Inr s')
    show ?thesis
    proof (cases "t = u")
      case True
      with assms [of s] Inr show ?thesis by simp
    next
      case False
      with Cons.prems have "t \<in> set us" by simp
      from Cons.IH [OF this, of s'] Inr show ?thesis by simp
    qed
  qed
qed

lemma for_each_abort:
  "for_each f s pre = Inr s1 \<Longrightarrow> f s1 l = Inl e \<Longrightarrow> for_each f s (pre @ l # post) = Inl e"
proof (induction pre arbitrary: s)
  case Nil
  then show ?case by simp
next
  case (Cons p pre)
  then show ?case by (auto split: sum.splits)
qed

lemma scan_heads_bad_from:
  assumes good: "\<forall>m. j \<le> m \<and> m < k \<longrightarrow> head_pair ps (2 * m) \<and> \<not> isl (py_int (ps ! (2 * m + 1)))"
    and bad: "head_pair ps (2 * k)" "isl (py_int (ps ! (2 * k + 1)))"
    and jk: "j \<le> k"
  shows "scan_heads ps (2 * j) hs = Inl ValueError"
  using good jk
proof (induction "k - j" arbitrary: j hs)
  case 0
  then have "j = k" by simp
  with bad py_int_isl [OF bad(2)] show ?case
    by (subst scan_heads.simps) (auto simp: head_pair_def)
next
  case (Suc d)
  then have jk: "j < k" by simp
  with Suc.prems have hp: "head_pair ps (2 * j)" and ok: "\<not> isl (py_int (ps ! (2 * j + 1)))"
    by auto
  from ok obtain v where v: "py_int (ps ! (2 * j + 1)) = Inr v"
    by (cases "py_int (ps ! (2 * j + 1))") auto
  have step: "scan_heads ps (2 * j) hs
      = scan_heads ps (2 * Suc j) (dict_set hs (butlast (ps ! (2 * j))) v)"
    using hp v by (subst scan_heads.simps) (auto simp: head_pair_def)
  have "scan_heads ps (2 * Suc j) (dict_set hs (butlast (ps ! (2 * j))) v) = Inl ValueError"
    using Suc.hyps(2) Suc.prems jk by (intro Suc.hyps(1)) auto
  with step show ?case by simp
qed

lemma scan_heads_bad: "bad_pair_reached ps k \<Longrightarrow> scan_heads ps 0 hs = Inl ValueError"
  using scan_heads_bad_from [of 0 k ps hs] by (simp add: bad_pair_reached_def)

lemma not_bracketed_IP: "\<not> is_bracketed ''IP:''"
  by (simp add: is_bracketed_def)

lemma mabe_heads_line_bad:
  assumes "strip l \<noteq> []" "split (strip l) ! 0 = ''IP:''" "bad_pair_reached (split (strip l)) k"
  shows "mabe_line s l = Inl ValueError"
  using assms not_bracketed_IP scan_heads_bad [OF assms(3), of "cur_heads s"]
  by (simp add: mabe_line_def Let_def)

lemma avida_cpu_line_bad:
  assumes "strip l \<noteq> []" "split (strip l) ! 0 = ''CPU''" "t \<in> set (split (strip l))"
    "bad_cpu_token t"
  shows "\<exists>e. avida_line s l = Inl e"
proof -
  have nb: "\<not> is_boundary (split (strip l))"
    using assms(2) by (simp add: is_boundary_def)
  have "\<exists>e. for_each cpu_part s (split (strip l)) = Inl e"
    using assms(3) by (rule for_each_raises [rotated]) (simp add: cpu_part_bad [OF assms(4)])
  with assms(1,2) nb show ?thesis
    by (simp add: avida_line_def new_org_def Let_def)
qed

lemma avida_heads_line_bad:
  assumes "strip l \<noteq> []" "take 7 (split (strip l) ! 0) = ''R-Head:''" "t \<in> set (split (strip l))"
    "bad_head_token t"
  shows "avida_line s l = Inl ValueError"
proof -
  have nb: "\<not> is_boundary (split (strip l))"
    using assms(2) by (auto simp: is_boundary_def)
  have nc: "split (strip l) ! 0 \<noteq> ''CPU''"
    using assms(2) by auto
  obtain e where e: "for_each head_part s (split (strip l)) = Inl e"
    using for_each_raises [of head_part t "split (strip l)" s] assms(3)
      head_part_bad [OF assms(4)] by auto
  then have "e = ValueError" by (rule for_each_head_error)
  with e assms(1,2) nb nc show ?thesis
    by (simp add: avida_line_def new_org_def Let_def)
qed

section \<open>Properties of the parsers\<close>

text \<open>
  Claim C6: the Format-A parser on the three lines \<^verbatim>\<open>U:-1\<close>,
  \<^verbatim>\<open>CPU ... IP:3 AX:10 BX:0\<close> and \<^verbatim>\<open>R-Head:5 W-Head:6 F-Head:0\<close> leaves, after the
  flush at the end of the input, one snapshot for organism 0, with heads IP 3, RH 5, WH 6,
  FH 0 and registers 10, 0.
\<close>

theorem format_a_scenario:
  "parse_avida_trace [''U:-1'', ''CPU ... IP:3 AX:10 BX:0'', ''R-Head:5 W-Head:6 F-Head:0'']
   = Inr [[\<lparr>idx = 0, heads = [(''IP'', 3), (''RH'', 5), (''WH'', 6), (''FH'', 0)],
            regs = [10, 0]\<rparr>]]"
  by code_simp

text \<open>
  Claim C1, as the code has it: the scan of a heads line starts at the leading
  \<^verbatim>\<open>IP:\<close> token itself, which is the first head name. On the lines \<^verbatim>\<open>[0]\<close>,
  \<^verbatim>\<open>[0] 7\<close>, \<^verbatim>\<open>IP: 2 RH: 1 (nop-A)\<close>, \<^verbatim>\<open>[1]\<close> the flush at the \<^verbatim>\<open>[1]\<close> line
  stores one snapshot for organism 0, with registers 7 and heads IP 2, RH 1. A token that
  ends with a colon, does not start with an open parenthesis and has a token after it is
  a head name, the next token its value, and the scan goes on two tokens later; the scan
  stops at a token that lacks the colon, starts with an open parenthesis or is the last
  of the line.
\<close>

theorem format_b_scan:
  "mabe_lines [''[0]'', ''[0] 7'', ''IP: 2 RH: 1 (nop-A)'', ''[1]'']
     = Inr \<lparr>org_states = [[\<lparr>idx = 0, heads = [(''IP'', 2), (''RH'', 1)], regs = [7]\<rparr>]],
            org_idx = Some 1, cur_heads = [], cur_regs = []\<rparr> \<and>
   (strip l \<noteq> [] \<and> split (strip l) ! 0 = ''IP:''
      \<longrightarrow> mabe_line s l =
            (case scan_heads (split (strip l)) 0 (cur_heads s) of
               Inl e \<Rightarrow> Inl e
             | Inr hs \<Rightarrow> Inr (s\<lparr>cur_heads := hs\<rparr>))) \<and>
   (i + 1 < length ps \<and> ps ! i \<noteq> [] \<and> last (ps ! i) = CHR '':'' \<and> hd (ps ! i) \<noteq> CHR ''(''
      \<and> py_int (ps ! (i + 1)) = Inr v
      \<longrightarrow> scan_heads ps i hs = scan_heads ps (i + 2) (dict_set hs (butlast (ps ! i)) v)) \<and>
   (j < length qs \<and> qs ! j \<noteq> [] \<and>
      (last (qs ! j) \<noteq> CHR '':'' \<or> hd (qs ! j) = CHR ''('' \<or> j = length qs - 1)
      \<longrightarrow> scan_heads qs j hs' = Inr hs')"
proof (intro conjI impI)
  show "mabe_lines [''[0]'', ''[0] 7'', ''IP: 2 RH: 1 (nop-A)'', ''[1]'']
     = Inr \<lparr>org_states = [[\<lparr>idx = 0, heads = [(''IP'', 2), (''RH'', 1)], regs = [7]\<rparr>]],
            org_idx = Some 1, cur_heads = [], cur_regs = []\<rparr>"
    by code_simp
next
  assume "strip l \<noteq> [] \<and> split (strip l) ! 0 = ''IP:''"
  moreover have "\<not> is_bracketed ''IP:''"
    by (simp add: is_bracketed_def)
  ultimately show "mabe_line s l =
            (case scan_heads (split (strip l)) 0 (cur_heads s) of
               Inl e \<Rightarrow> Inl e
             | Inr hs \<Rightarrow> Inr (s\<lparr>cur_heads := hs\<rparr>))"
    by (simp add: mabe_line_def Let_def)
next
  assume "i + 1 < length ps \<and> ps ! i \<noteq> [] \<and> last (ps ! i) = CHR '':'' \<and> hd (ps ! i) \<noteq> CHR ''(''
      \<and> py_int (ps ! (i + 1)) = Inr v"
  then show "scan_heads ps i hs = scan_heads ps (i + 2) (dict_set hs (butlast (ps ! i)) v)"
    by (subst scan_heads.simps) auto
next
  assume "j < length qs \<and> qs ! j \<noteq> [] \<and>
      (last (qs ! j) \<noteq> CHR '':'' \<or> hd (qs ! j) = CHR ''('' \<or> j = length qs - 1)"
  then show "scan_heads qs j hs' = Inr hs'"
    by (subst scan_heads.simps) auto
qed

theorem format_b_scan_witness:
  "mabe_line \<lparr>org_states = [], org_idx = Some 0, cur_heads = [(''IP'', 1)], cur_regs = [4]\<rparr> ''IP: 2 RH: 1 (nop-A)'' =
     (case scan_heads (split (strip ''IP: 2 RH: 1 (nop-A)'')) 0
             (cur_heads \<lparr>org_states = [], org_idx = Some 0, cur_heads = [(''IP'', 1)], cur_regs = [4]\<rparr>) of
        Inl e \<Rightarrow> Inl e
      | Inr hs \<Rightarrow> Inr (\<lparr>org_states = [], org_idx = Some 0, cur_heads = [(''IP'', 1)], cur_regs = [4]\<rparr>\<lparr>cur_heads := hs\<rparr>)) \<and>
   scan_heads [''IP:'', ''2'', ''RH:'', ''1'', ''(nop-A)''] 0 []
     = scan_heads [''IP:'', ''2'', ''RH:'', ''1'', ''(nop-A)''] (0 + 2)
         (dict_set [] (butlast ([''IP:'', ''2'', ''RH:'', ''1'', ''(nop-A)''] ! 0)) 2) \<and>
   scan_heads [''IP:'', ''2'', ''RH:'', ''1'', ''(nop-A)''] 4 [(''IP'', 2), (''RH'', 1)] = Inr [(''IP'', 2), (''RH'', 1)]"
proof -
  have h1: "strip ''IP: 2 RH: 1 (nop-A)'' \<noteq> [] \<and> split (strip ''IP: 2 RH: 1 (nop-A)'') ! 0 = ''IP:''"
    by code_simp
  have h2: "0 + 1 < length [''IP:'', ''2'', ''RH:'', ''1'', ''(nop-A)''] \<and>
      [''IP:'', ''2'', ''RH:'', ''1'', ''(nop-A)''] ! 0 \<noteq> [] \<and>
      last ([''IP:'', ''2'', ''RH:'', ''1'', ''(nop-A)''] ! 0) = CHR '':'' \<and>
      hd ([''IP:'', ''2'', ''RH:'', ''1'', ''(nop-A)''] ! 0) \<noteq> CHR ''('' \<and>
      py_int ([''IP:'', ''2'', ''RH:'', ''1'', ''(nop-A)''] ! (0 + 1)) = Inr 2"
    by code_simp
  have h3: "4 < length [''IP:'', ''2'', ''RH:'', ''1'', ''(nop-A)''] \<and>
      [''IP:'', ''2'', ''RH:'', ''1'', ''(nop-A)''] ! 4 \<noteq> [] \<and>
      (last ([''IP:'', ''2'', ''RH:'', ''1'', ''(nop-A)''] ! 4) \<noteq> CHR '':'' \<or>
       hd ([''IP:'', ''2'', ''RH:'', ''1'', ''(nop-A)''] ! 4) = CHR ''('' \<or>
       4 = length [''IP:'', ''2'', ''RH:'', ''1'', ''(nop-A)''] - 1)"
    by code_simp
  from format_b_scan
    [where l = "''IP: 2 RH: 1 (nop-A)''"
       and s = "\<lparr>org_states = [], org_idx = Some 0, cur_heads = [(''IP'', 1)], cur_regs = [4]\<rparr>"
       and i = 0 and ps = "[''IP:'', ''2'', ''RH:'', ''1'', ''(nop-A)'']" and v = 2 and hs = "[]"
       and j = 4 and qs = "[''IP:'', ''2'', ''RH:'', ''1'', ''(nop-A)'']" and hs' = "[(''IP'', 2), (''RH'', 1)]"]
    h1 h2 h3
  show ?thesis by blast
qed

text \<open>
  Claim C1 as stated fails on its own input: in \<^verbatim>\<open>IP: IP: 2 RH: 1\<close> the scan takes
  the second \<^verbatim>\<open>IP:\<close> for the value of the first, and \<^verbatim>\<open>int\<close> raises.
\<close>

theorem format_b_scenario_counterexample:
  "mabe_lines [''[0]'', ''[0] 7'', ''IP: IP: 2 RH: 1'', ''[1]''] = Inl ValueError \<and>
   parse_mabe_trace [''[0]'', ''[0] 7'', ''IP: IP: 2 RH: 1'', ''[1]''] = Inl ValueError"
  by code_simp

text \<open>
  Claim C2, as the code has it: both parsers skip, with the state unchanged and no error,
  a blank line and a line whose first token matches no line pattern; the Format-B parser
  skips a heads line of the single token \<^verbatim>\<open>IP:\<close>; inside a \<^verbatim>\<open>CPU\<close> or heads line
  the Format-A parser skips a token that matches no token pattern. A value that
  \<^verbatim>\<open>int\<close> rejects is not skipped, it raises \<^verbatim>\<open>ValueError\<close>: the second token of
  a Format-B register line; a head pair that the scan of a Format-B heads line reaches;
  a token of a Format-A \<^verbatim>\<open>CPU\<close> line that matches the instruction-pointer or the
  register pattern; a token of a Format-A heads line that matches a head pattern. A
  Format-A \<^verbatim>\<open>CPU\<close> line with such a token raises (at that token or at an earlier
  one), a Format-A heads line with such a token raises \<^verbatim>\<open>ValueError\<close>, and a line
  that raises ends the whole parse with its exception.
\<close>

theorem unmatched_lines_skipped:
  "(strip l = [] \<longrightarrow> mabe_line s l = Inr s \<and> avida_line s l = Inr s) \<and>
   (strip l1 \<noteq> [] \<and> \<not> is_bracketed (split (strip l1) ! 0) \<and> split (strip l1) ! 0 \<noteq> ''IP:''
      \<longrightarrow> mabe_line s l1 = Inr s) \<and>
   (split (strip l2) = [''IP:''] \<longrightarrow> mabe_line s l2 = Inr s) \<and>
   (strip l3 \<noteq> [] \<and> \<not> is_boundary (split (strip l3)) \<and> split (strip l3) ! 0 \<noteq> ''CPU''
      \<and> take 7 (split (strip l3) ! 0) \<noteq> ''R-Head:''
      \<longrightarrow> avida_line s l3 = Inr s) \<and>
   (\<not> (length p > 3 \<and> take 3 p = ''IP:'') \<and> \<not> (length p > 3 \<and> take 2 (drop 1 p) = ''X:'')
      \<longrightarrow> cpu_part s p = Inr s) \<and>
   (length q < 8 \<or> (take 6 q \<noteq> ''R-Head'' \<and> take 6 q \<noteq> ''W-Head'' \<and> take 6 q \<noteq> ''F-Head'')
      \<longrightarrow> head_part s q = Inr s) \<and>
   (strip l4 \<noteq> [] \<and> is_bracketed (split (strip l4) ! 0) \<and> length (split (strip l4)) \<noteq> 1
      \<and> py_int (split (strip l4) ! 1) = Inl e
      \<longrightarrow> mabe_line s l4 = Inl ValueError) \<and>
   (bad_pair_reached ps k \<longrightarrow> scan_heads ps 0 hs = Inl ValueError) \<and>
   (strip l5 \<noteq> [] \<and> split (strip l5) ! 0 = ''IP:'' \<and> bad_pair_reached (split (strip l5)) k5
      \<longrightarrow> mabe_line s l5 = Inl ValueError) \<and>
   (bad_cpu_token p1 \<longrightarrow> cpu_part s p1 = Inl ValueError) \<and>
   (strip l6 \<noteq> [] \<and> split (strip l6) ! 0 = ''CPU'' \<and> t6 \<in> set (split (strip l6))
      \<and> bad_cpu_token t6
      \<longrightarrow> (\<exists>e6. avida_line s l6 = Inl e6)) \<and>
   (bad_head_token q1 \<longrightarrow> head_part s q1 = Inl ValueError) \<and>
   (strip l7 \<noteq> [] \<and> take 7 (split (strip l7) ! 0) = ''R-Head:'' \<and> t7 \<in> set (split (strip l7))
      \<and> bad_head_token t7
      \<longrightarrow> avida_line s l7 = Inl ValueError) \<and>
   (mabe_lines pre = Inr s8 \<and> mabe_line s8 l8 = Inl e8
      \<longrightarrow> parse_mabe_trace (pre @ l8 # post) = Inl e8) \<and>
   (avida_lines pre9 = Inr s9 \<and> avida_line s9 l9 = Inl e9
      \<longrightarrow> parse_avida_trace (pre9 @ l9 # post9) = Inl e9)"
proof (intro conjI impI)
  assume "strip l = []"
  then show "mabe_line s l = Inr s" "avida_line s l = Inr s"
    by (simp_all add: mabe_line_def avida_line_def)
next
  assume "strip l1 \<noteq> [] \<and> \<not> is_bracketed (split (strip l1) ! 0) \<and> split (strip l1) ! 0 \<noteq> ''IP:''"
  then show "mabe_line s l1 = Inr s"
    by (simp add: mabe_line_def Let_def)
next
  assume ip: "split (strip l2) = [''IP:'']"
  have sc: "scan_heads [''IP:''] 0 (cur_heads s) = Inr (cur_heads s)"
    by (subst scan_heads.simps) simp
  have "strip l2 \<noteq> []"
    using ip by (auto simp: split_def)
  with ip not_bracketed_IP sc show "mabe_line s l2 = Inr s"
    by (simp add: mabe_line_def Let_def)
next
  assume "strip l3 \<noteq> [] \<and> \<not> is_boundary (split (strip l3)) \<and> split (strip l3) ! 0 \<noteq> ''CPU''
      \<and> take 7 (split (strip l3) ! 0) \<noteq> ''R-Head:''"
  then show "avida_line s l3 = Inr s"
    by (simp add: avida_line_def new_org_def Let_def)
next
  assume "\<not> (length p > 3 \<and> take 3 p = ''IP:'') \<and> \<not> (length p > 3 \<and> take 2 (drop 1 p) = ''X:'')"
  then show "cpu_part s p = Inr s"
    by (auto simp: cpu_part_def)
next
  assume "length q < 8 \<or> (take 6 q \<noteq> ''R-Head'' \<and> take 6 q \<noteq> ''W-Head'' \<and> take 6 q \<noteq> ''F-Head'')"
  then show "head_part s q = Inr s"
    by (auto simp: head_part_def)
next
  assume h: "strip l4 \<noteq> [] \<and> is_bracketed (split (strip l4) ! 0) \<and> length (split (strip l4)) \<noteq> 1
      \<and> py_int (split (strip l4) ! 1) = Inl e"
  then have "e = ValueError" by (auto dest: py_int_error)
  with h show "mabe_line s l4 = Inl ValueError"
    by (auto simp: mabe_line_def Let_def split: sum.splits dest: py_int_error)
next
  assume "bad_pair_reached ps k"
  then show "scan_heads ps 0 hs = Inl ValueError" by (rule scan_heads_bad)
next
  assume "strip l5 \<noteq> [] \<and> split (strip l5) ! 0 = ''IP:'' \<and> bad_pair_reached (split (strip l5)) k5"
  then show "mabe_line s l5 = Inl ValueError"
    using mabe_heads_line_bad [of l5 k5 s] by simp
next
  assume "bad_cpu_token p1"
  then show "cpu_part s p1 = Inl ValueError" by (rule cpu_part_bad)
next
  assume "strip l6 \<noteq> [] \<and> split (strip l6) ! 0 = ''CPU'' \<and> t6 \<in> set (split (strip l6))
      \<and> bad_cpu_token t6"
  then show "\<exists>e6. avida_line s l6 = Inl e6"
    using avida_cpu_line_bad [of l6 t6 s] by simp
next
  assume "bad_head_token q1"
  then show "head_part s q1 = Inl ValueError" by (rule head_part_bad)
next
  assume "strip l7 \<noteq> [] \<and> take 7 (split (strip l7) ! 0) = ''R-Head:'' \<and> t7 \<in> set (split (strip l7))
      \<and> bad_head_token t7"
  then show "avida_line s l7 = Inl ValueError"
    using avida_heads_line_bad [of l7 t7 s] by simp
next
  assume "mabe_lines pre = Inr s8 \<and> mabe_line s8 l8 = Inl e8"
  then show "parse_mabe_trace (pre @ l8 # post) = Inl e8"
    using for_each_abort [of mabe_line init_pstate pre s8 l8 e8 post]
    by (simp add: parse_mabe_trace_def mabe_lines_def)
next
  assume "avida_lines pre9 = Inr s9 \<and> avida_line s9 l9 = Inl e9"
  then show "parse_avida_trace (pre9 @ l9 # post9) = Inl e9"
    using for_each_abort [of avida_line init_pstate pre9 s9 l9 e9 post9]
    by (simp add: parse_avida_trace_def avida_lines_def)
qed

theorem unmatched_lines_skipped_witness:
  "(mabe_line \<lparr>org_states = [], org_idx = Some 0, cur_heads = [(''IP'', 1)], cur_regs = [4]\<rparr> ''   '' = Inr \<lparr>org_states = [], org_idx = Some 0, cur_heads = [(''IP'', 1)], cur_regs = [4]\<rparr> \<and>
    avida_line \<lparr>org_states = [], org_idx = Some 0, cur_heads = [(''IP'', 1)], cur_regs = [4]\<rparr> ''   '' = Inr \<lparr>org_states = [], org_idx = Some 0, cur_heads = [(''IP'', 1)], cur_regs = [4]\<rparr>) \<and>
   mabe_line \<lparr>org_states = [], org_idx = Some 0, cur_heads = [(''IP'', 1)], cur_regs = [4]\<rparr> ''hello world'' = Inr \<lparr>org_states = [], org_idx = Some 0, cur_heads = [(''IP'', 1)], cur_regs = [4]\<rparr> \<and>
   mabe_line \<lparr>org_states = [], org_idx = Some 0, cur_heads = [(''IP'', 1)], cur_regs = [4]\<rparr> '' IP: '' = Inr \<lparr>org_states = [], org_idx = Some 0, cur_heads = [(''IP'', 1)], cur_regs = [4]\<rparr> \<and>
   avida_line \<lparr>org_states = [], org_idx = Some 0, cur_heads = [(''IP'', 1)], cur_regs = [4]\<rparr> ''# comment'' = Inr \<lparr>org_states = [], org_idx = Some 0, cur_heads = [(''IP'', 1)], cur_regs = [4]\<rparr> \<and>
   cpu_part \<lparr>org_states = [], org_idx = Some 0, cur_heads = [(''IP'', 1)], cur_regs = [4]\<rparr> ''...'' = Inr \<lparr>org_states = [], org_idx = Some 0, cur_heads = [(''IP'', 1)], cur_regs = [4]\<rparr> \<and>
   head_part \<lparr>org_states = [], org_idx = Some 0, cur_heads = [(''IP'', 1)], cur_regs = [4]\<rparr> ''R-Head:'' = Inr \<lparr>org_states = [], org_idx = Some 0, cur_heads = [(''IP'', 1)], cur_regs = [4]\<rparr> \<and>
   mabe_line \<lparr>org_states = [], org_idx = Some 0, cur_heads = [(''IP'', 1)], cur_regs = [4]\<rparr> ''[0] foo'' = Inl ValueError \<and>
   scan_heads [''IP:'', ''1'', ''RH:'', ''bar''] 0 [] = Inl ValueError \<and>
   mabe_line \<lparr>org_states = [], org_idx = Some 0, cur_heads = [(''IP'', 1)], cur_regs = [4]\<rparr> ''IP: 1 RH: bar'' = Inl ValueError \<and>
   cpu_part \<lparr>org_states = [], org_idx = Some 0, cur_heads = [(''IP'', 1)], cur_regs = [4]\<rparr> ''AX:foo'' = Inl ValueError \<and>
   (\<exists>e6. avida_line \<lparr>org_states = [], org_idx = Some 0, cur_heads = [(''IP'', 1)], cur_regs = [4]\<rparr> ''CPU IP:3 AX:foo'' = Inl e6) \<and>
   head_part \<lparr>org_states = [], org_idx = Some 0, cur_heads = [(''IP'', 1)], cur_regs = [4]\<rparr> ''F-Head:x'' = Inl ValueError \<and>
   avida_line \<lparr>org_states = [], org_idx = Some 0, cur_heads = [(''IP'', 1)], cur_regs = [4]\<rparr> ''R-Head:5 W-Head:x'' = Inl ValueError \<and>
   parse_mabe_trace ([''[0]''] @ ''[0] foo'' # [''[1]'']) = Inl ValueError \<and>
   parse_avida_trace ([''U:-1''] @ ''CPU IP:x'' # []) = Inl ValueError"
proof -
  have h0: "strip ''   '' = []"
    by code_simp
  have h1: "strip ''hello world'' \<noteq> [] \<and> \<not> is_bracketed (split (strip ''hello world'') ! 0) \<and>
      split (strip ''hello world'') ! 0 \<noteq> ''IP:''"
    by code_simp
  have h2: "split (strip '' IP: '') = [''IP:'']"
    by code_simp
  have h3: "strip ''# comment'' \<noteq> [] \<and> \<not> is_boundary (split (strip ''# comment'')) \<and>
      split (strip ''# comment'') ! 0 \<noteq> ''CPU'' \<and>
      take 7 (split (strip ''# comment'') ! 0) \<noteq> ''R-Head:''"
    by code_simp
  have h4: "\<not> (length ''...'' > 3 \<and> take 3 ''...'' = ''IP:'') \<and>
      \<not> (length ''...'' > 3 \<and> take 2 (drop 1 ''...'') = ''X:'')"
    by code_simp
  have h5: "length ''R-Head:'' < 8 \<or>
      (take 6 ''R-Head:'' \<noteq> ''R-Head'' \<and> take 6 ''R-Head:'' \<noteq> ''W-Head'' \<and>
       take 6 ''R-Head:'' \<noteq> ''F-Head'')"
    by code_simp
  have h6: "strip ''[0] foo'' \<noteq> [] \<and> is_bracketed (split (strip ''[0] foo'') ! 0) \<and>
      length (split (strip ''[0] foo'')) \<noteq> 1 \<and>
      py_int (split (strip ''[0] foo'') ! 1) = Inl ValueError"
    by code_simp
  have h7: "bad_pair_reached [''IP:'', ''1'', ''RH:'', ''bar''] 1"
    by code_simp
  have h8: "strip ''IP: 1 RH: bar'' \<noteq> [] \<and> split (strip ''IP: 1 RH: bar'') ! 0 = ''IP:'' \<and>
      bad_pair_reached (split (strip ''IP: 1 RH: bar'')) 1"
    by code_simp
  have h9: "bad_cpu_token ''AX:foo''"
    by code_simp
  have h10: "strip ''CPU IP:3 AX:foo'' \<noteq> [] \<and> split (strip ''CPU IP:3 AX:foo'') ! 0 = ''CPU'' \<and>
      ''AX:foo'' \<in> set (split (strip ''CPU IP:3 AX:foo'')) \<and> bad_cpu_token ''AX:foo''"
    by code_simp
  have h11: "bad_head_token ''F-Head:x''"
    by code_simp
  have h12: "strip ''R-Head:5 W-Head:x'' \<noteq> [] \<and>
      take 7 (split (strip ''R-Head:5 W-Head:x'') ! 0) = ''R-Head:'' \<and>
      ''W-Head:x'' \<in> set (split (strip ''R-Head:5 W-Head:x'')) \<and> bad_head_token ''W-Head:x''"
    by code_simp
  have h13: "mabe_lines [''[0]''] = Inr \<lparr>org_states = [], org_idx = Some 0, cur_heads = [], cur_regs = []\<rparr> \<and>
      mabe_line \<lparr>org_states = [], org_idx = Some 0, cur_heads = [], cur_regs = []\<rparr> ''[0] foo'' = Inl ValueError"
    by code_simp
  have h14: "avida_lines [''U:-1''] = Inr \<lparr>org_states = [], org_idx = Some 0, cur_heads = [], cur_regs = []\<rparr> \<and>
      avida_line \<lparr>org_states = [], org_idx = Some 0, cur_heads = [], cur_regs = []\<rparr> ''CPU IP:x'' = Inl ValueError"
    by code_simp
  from unmatched_lines_skipped
    [where l = "''   ''" and s = "\<lparr>org_states = [], org_idx = Some 0, cur_heads = [(''IP'', 1)], cur_regs = [4]\<rparr>"
       and ?l1.0 = "''hello world''" and ?l2.0 = "'' IP: ''" and ?l3.0 = "''# comment''"
       and p = "''...''" and q = "''R-Head:''" and ?l4.0 = "''[0] foo''" and e = ValueError
       and ps = "[''IP:'', ''1'', ''RH:'', ''bar'']" and k = 1 and hs = "[]"
       and ?l5.0 = "''IP: 1 RH: bar''" and ?k5.0 = 1
       and ?p1.0 = "''AX:foo''" and ?l6.0 = "''CPU IP:3 AX:foo''" and ?t6.0 = "''AX:foo''"
       and ?q1.0 = "''F-Head:x''" and ?l7.0 = "''R-Head:5 W-Head:x''" and ?t7.0 = "''W-Head:x''"
       and pre = "[''[0]'']" and ?s8.0 = "\<lparr>org_states = [], org_idx = Some 0, cur_heads = [], cur_regs = []\<rparr>"
       and ?l8.0 = "''[0] foo''" and ?e8.0 = ValueError and post = "[''[1]'']"
       and ?pre9.0 = "[''U:-1'']" and ?s9.0 = "\<lparr>org_states = [], org_idx = Some 0, cur_heads = [], cur_regs = []\<rparr>"
       and ?l9.0 = "''CPU IP:x''" and ?e9.0 = ValueError and ?post9.0 = "[]"]
    h0 h1 h2 h3 h4 h5 h6 h7 h8 h9 h10 h11 h12 h13 h14
  show ?thesis by blast
qed

text \<open>
  Claim C2 as stated fails: a register line, a head pair and the tokens of the two
  Format-A data lines raise \<^verbatim>\<open>ValueError\<close> when the value is not an integer.
\<close>

theorem unmatched_lines_counterexample:
  "parse_mabe_trace [''[0]'', ''[0] foo''] = Inl ValueError \<and>
   parse_mabe_trace [''[0]'', ''IP: 1 RH: bar''] = Inl ValueError \<and>
   parse_avida_trace [''U:-1'', ''CPU IP:x''] = Inl ValueError \<and>
   parse_avida_trace [''U:-1'', ''R-Head:5 W-Head:x''] = Inl ValueError"
  by code_simp

text \<open>
  Claim C4, as the code has it: on a Format-A input with no boundary line no organism is
  ever in progress, so the flush at the end of the input stores nothing: the parser
  leaves the empty store, or raises on a value that is not an integer.
\<close>

theorem no_boundary_no_snapshot:
  "(\<forall>l\<in>set ls. \<not> is_boundary (split (strip l))) \<longrightarrow>
     parse_avida_trace ls = Inr [] \<or> (\<exists>e. parse_avida_trace ls = Inl e)"
proof
  assume nb: "\<forall>l\<in>set ls. \<not> is_boundary (split (strip l))"
  show "parse_avida_trace ls = Inr [] \<or> (\<exists>e. parse_avida_trace ls = Inl e)"
  proof (cases "avida_lines ls")
    case (Inl e)
    then show ?thesis by (simp add: parse_avida_trace_def)
  next
    case (Inr s)
    then have "nothing_recorded s"
      using avida_lines_no_boundary [OF nb, of init_pstate s]
      by (simp add: avida_lines_def nothing_recorded_def init_pstate_def)
    with Inr show ?thesis
      by (simp add: parse_avida_trace_def flush_def nothing_recorded_def)
  qed
qed

theorem no_boundary_no_snapshot_witness:
  "parse_avida_trace [''CPU ... IP:3 AX:10 BX:0'', ''R-Head:5 W-Head:6 F-Head:0''] = Inr []
   \<or> (\<exists>e. parse_avida_trace [''CPU ... IP:3 AX:10 BX:0'', ''R-Head:5 W-Head:6 F-Head:0'']
            = Inl e)"
proof -
  have "\<forall>l\<in>set [''CPU ... IP:3 AX:10 BX:0'', ''R-Head:5 W-Head:6 F-Head:0''].
          \<not> is_boundary (split (strip l))"
    by code_simp
  with no_boundary_no_snapshot
    [of "[''CPU ... IP:3 AX:10 BX:0'', ''R-Head:5 W-Head:6 F-Head:0'']"]
  show ?thesis by blast
qed

text \<open>
  Claim C4 as stated fails: a \<^verbatim>\<open>CPU\<close> line and a heads line with no boundary line
  before them leave no snapshot.
\<close>

theorem no_boundary_counterexample:
  "parse_avida_trace [''CPU ... IP:3 AX:10 BX:0'', ''R-Head:5 W-Head:6 F-Head:0''] = Inr []"
  by code_simp

text \<open>
  Claim C9: the flush, which is the only write to the store in both parsers (at a boundary
  line and at the end of the input), never raises. With no organism in progress it leaves
  the store as it is. With organism \<open>i\<close> in progress the new store has an entry for
  every index from 0 to \<open>i\<close>, and for every index below any index it holds: the entries
  the store had are kept, the indices between the old length and \<open>i\<close> hold empty
  sequences, and the snapshot is the last step of entry \<open>i\<close>.
\<close>

theorem flush_fills_gaps:
  "(org_idx s0 = None \<longrightarrow> flush s0 = Inr (org_states s0)) \<and>
   (org_idx s = Some i \<longrightarrow>
      (\<exists>st. flush s = Inr st \<and>
         length st = max (length (org_states s)) (Suc i) \<and>
         (\<forall>j\<in>set [0..<Suc i]. j < length st) \<and>
         (\<forall>k\<in>set [0..<length st]. \<forall>j\<in>set [0..<Suc k]. j < length st) \<and>
         (\<forall>j\<in>set [length (org_states s)..<i]. st ! j = []) \<and>
         (\<forall>j\<in>set [0..<length (org_states s)]. j \<noteq> i \<longrightarrow> st ! j = org_states s ! j) \<and>
         st ! i = (if i < length (org_states s) then org_states s ! i else [])
                    @ [\<lparr>idx = i, heads = cur_heads s, regs = cur_regs s\<rparr>]))"
proof (intro conjI impI)
  assume "org_idx s0 = None"
  then show "flush s0 = Inr (org_states s0)" by (simp add: flush_def)
next
  assume i: "org_idx s = Some i"
  let ?g = "grow_orgs (org_states s) i"
  let ?st = "?g[i := ?g ! i @ [\<lparr>idx = i, heads = cur_heads s, regs = cur_regs s\<rparr>]]"
  have len: "length ?g = max (length (org_states s)) (Suc i)"
    by (simp add: grow_orgs_eq max_def)
  have "flush s = Inr ?st" using i by (rule flush_Some)
  moreover have "length ?st = max (length (org_states s)) (Suc i)"
    using len by simp
  moreover have "\<forall>j\<in>set [0..<Suc i]. j < length ?st"
    using len by auto
  moreover have "\<forall>k\<in>set [0..<length ?st]. \<forall>j\<in>set [0..<Suc k]. j < length ?st"
    by auto
  moreover have "\<forall>j\<in>set [length (org_states s)..<i]. ?st ! j = []"
    by (auto simp: grow_orgs_eq nth_append)
  moreover have "\<forall>j\<in>set [0..<length (org_states s)]. j \<noteq> i \<longrightarrow> ?st ! j = org_states s ! j"
    by (auto simp: grow_orgs_eq nth_append)
  moreover have "?st ! i = (if i < length (org_states s) then org_states s ! i else [])
                    @ [\<lparr>idx = i, heads = cur_heads s, regs = cur_regs s\<rparr>]"
    using len by (auto simp: grow_orgs_eq nth_append)
  ultimately show "\<exists>st. flush s = Inr st \<and>
         length st = max (length (org_states s)) (Suc i) \<and>
         (\<forall>j\<in>set [0..<Suc i]. j < length st) \<and>
         (\<forall>k\<in>set [0..<length st]. \<forall>j\<in>set [0..<Suc k]. j < length st) \<and>
         (\<forall>j\<in>set [length (org_states s)..<i]. st ! j = []) \<and>
         (\<forall>j\<in>set [0..<length (org_states s)]. j \<noteq> i \<longrightarrow> st ! j = org_states s ! j) \<and>
         st ! i = (if i < length (org_states s) then org_states s ! i else [])
                    @ [\<lparr>idx = i, heads = cur_heads s, regs = cur_regs s\<rparr>]"
    by blast
qed

theorem flush_fills_gaps_witness:
  "flush \<lparr>org_states = [[\<lparr>idx = 0, heads = [(''IP'', 1)], regs = [3]\<rparr>]], org_idx = None, cur_heads = [], cur_regs = []\<rparr>
     = Inr [[\<lparr>idx = 0, heads = [(''IP'', 1)], regs = [3]\<rparr>]] \<and>
   (\<exists>st. flush \<lparr>org_states = [[\<lparr>idx = 0, heads = [(''IP'', 1)], regs = [3]\<rparr>]], org_idx = Some 3, cur_heads = [(''IP'', 2)], cur_regs = [0, 5]\<rparr> = Inr st \<and>
      length st = 4 \<and> st ! 0 = [\<lparr>idx = 0, heads = [(''IP'', 1)], regs = [3]\<rparr>] \<and> st ! 1 = [] \<and> st ! 2 = [] \<and>
      st ! 3 = [\<lparr>idx = 3, heads = [(''IP'', 2)], regs = [0, 5]\<rparr>])"
proof -
  have h0: "org_idx \<lparr>org_states = [[\<lparr>idx = 0, heads = [(''IP'', 1)], regs = [3]\<rparr>]], org_idx = None, cur_heads = [], cur_regs = []\<rparr> = None"
    by simp
  have h3: "org_idx \<lparr>org_states = [[\<lparr>idx = 0, heads = [(''IP'', 1)], regs = [3]\<rparr>]], org_idx = Some 3, cur_heads = [(''IP'', 2)], cur_regs = [0, 5]\<rparr> = Some 3"
    by simp
  have r: "set [length (org_states \<lparr>org_states = [[\<lparr>idx = 0, heads = [(''IP'', 1)], regs = [3]\<rparr>]], org_idx = Some 3, cur_heads = [(''IP'', 2)], cur_regs = [0, 5]\<rparr>)..<3] = {1, 2}"
    by code_simp
  have l: "set [0..<length (org_states \<lparr>org_states = [[\<lparr>idx = 0, heads = [(''IP'', 1)], regs = [3]\<rparr>]], org_idx = Some 3, cur_heads = [(''IP'', 2)], cur_regs = [0, 5]\<rparr>)] = {0}"
    by code_simp
  from flush_fills_gaps
    [where ?s0.0 = "\<lparr>org_states = [[\<lparr>idx = 0, heads = [(''IP'', 1)], regs = [3]\<rparr>]], org_idx = None, cur_heads = [], cur_regs = []\<rparr>"
       and s = "\<lparr>org_states = [[\<lparr>idx = 0, heads = [(''IP'', 1)], regs = [3]\<rparr>]], org_idx = Some 3, cur_heads = [(''IP'', 2)], cur_regs = [0, 5]\<rparr>"
       and i = 3]
    h0 h3
  show ?thesis unfolding r l by simp blast
qed

section \<open>Properties of the comparator\<close>

text \<open>
  Claim C3, as the code has it: comparing a trace store with itself, at an organism index
  of the store, returns \<^verbatim>\<open>None\<close> and prints nothing, provided every snapshot of the
  organism carries at least six registers.
\<close>

theorem self_compare_six_regs:
  assumes "0 \<le> i" "i < int (length S)" "\<forall>s\<in>set (S ! nat i). six_regs s"
  shows "compare_org_trace S S i = Inr \<lparr>printed = [], returned = None\<rparr>"
proof -
  from assms have g: "get_item S i = Inr (S ! nat i)"
    by (simp add: get_item_valid)
  have nm: "no_mismatch s s" for s
    by (auto simp: no_mismatch_def)
  have "step_loop S S i [0..<length (S ! nat i)] = Inr \<lparr>printed = [], returned = None\<rparr>"
    using g assms(3) by (intro step_loop_agree [OF g g]) (simp add: compare_step_None_iff nm)
  with g show ?thesis by (simp add: compare_org_trace_def)
qed

theorem self_compare_six_regs_witness:
  "compare_org_trace
     [[\<lparr>idx = 0, heads = [(''IP'', 3), (''FH'', 0)], regs = [10, 0, 0, 0, 0, 0, 4]\<rparr>]]
     [[\<lparr>idx = 0, heads = [(''IP'', 3), (''FH'', 0)], regs = [10, 0, 0, 0, 0, 0, 4]\<rparr>]] 0
   = Inr \<lparr>printed = [], returned = None\<rparr>"
  using self_compare_six_regs
    [of 0 "[[\<lparr>idx = 0, heads = [(''IP'', 3), (''FH'', 0)], regs = [10, 0, 0, 0, 0, 0, 4]\<rparr>]]"]
  by (simp add: six_regs_def)

text \<open>
  Claim C3 as stated fails on the store that the first Format-A scenario produces: its
  one snapshot holds two registers, and the comparison with itself reads register 2.
\<close>

theorem self_compare_counterexample:
  "compare_org_trace
     [[\<lparr>idx = 0, heads = [(''IP'', 3), (''RH'', 5), (''WH'', 6), (''FH'', 0)], regs = [10, 0]\<rparr>]]
     [[\<lparr>idx = 0, heads = [(''IP'', 3), (''RH'', 5), (''WH'', 6), (''FH'', 0)], regs = [10, 0]\<rparr>]] 0
   = Inl IndexError"
  by code_simp

text \<open>
  Claim C5, as the code has it: the value the comparator returns is the step of the
  divergence and nothing else, or \<^verbatim>\<open>None\<close> for full agreement; the category of the
  divergence is only printed. The comparator returns \<^verbatim>\<open>None\<close> exactly when it
  printed nothing, and otherwise the step that its one printed report names.
\<close>

theorem returned_value_is_step_only:
  "compare_org_trace self other i = Inr r \<Longrightarrow>
     (printed r = [] \<and> returned r = None) \<or>
     (\<exists>rep. printed r = [rep] \<and> returned r = Some (report_step rep))"
  by (auto simp: compare_org_trace_def split: sum.splits dest: step_loop_shape)

theorem returned_value_is_step_only_witness:
  "(printed \<lparr>printed = [RegMismatch 3 0], returned = Some 0\<rparr> = [] \<and>
      returned \<lparr>printed = [RegMismatch 3 0], returned = Some 0\<rparr> = None) \<or>
   (\<exists>rep. printed \<lparr>printed = [RegMismatch 3 0], returned = Some 0\<rparr> = [rep] \<and>
      returned \<lparr>printed = [RegMismatch 3 0], returned = Some 0\<rparr> = Some (report_step rep))"
proof -
  have run: "compare_org_trace
      [[\<lparr>idx = 0, heads = [(''IP'', 1)], regs = [0, 0, 0, 5, 0, 0]\<rparr>]]
      [[\<lparr>idx = 0, heads = [(''IP'', 1)], regs = [0, 0, 0, 6, 0, 0]\<rparr>]] 0
    = Inr \<lparr>printed = [RegMismatch 3 0], returned = Some 0\<rparr>"
    by code_simp
  show ?thesis
    by (rule returned_value_is_step_only [OF run])
qed

text \<open>
  Claim C5 as stated fails: a register mismatch, an exhausted second trace and a head
  mismatch at step 0 all return the same value, 0.
\<close>

theorem returned_value_counterexample:
  "compare_org_trace
      [[\<lparr>idx = 0, heads = [(''IP'', 1)], regs = [0, 0, 0, 5, 0, 0]\<rparr>]]
      [[\<lparr>idx = 0, heads = [(''IP'', 1)], regs = [0, 0, 0, 6, 0, 0]\<rparr>]] 0
    = Inr \<lparr>printed = [RegMismatch 3 0], returned = Some 0\<rparr>
   \<and> compare_org_trace
      [[\<lparr>idx = 0, heads = [(''IP'', 1)], regs = [0, 0, 0, 5, 0, 0]\<rparr>]]
      [[]] 0
    = Inr \<lparr>printed = [EndOfOther 0], returned = Some 0\<rparr>
   \<and> compare_org_trace
      [[\<lparr>idx = 0, heads = [(''IP'', 1)], regs = [0, 0, 0, 5, 0, 0]\<rparr>]]
      [[\<lparr>idx = 0, heads = [(''IP'', 2)], regs = [0, 0, 0, 5, 0, 0]\<rparr>]] 0
    = Inr \<lparr>printed = [HeadMismatch ''IP'' 0], returned = Some 0\<rparr>"
  by code_simp

text \<open>
  Claim C7, as the code has it: when the second store records fewer steps than the first
  for an organism of both stores, and at every step the second store records both
  snapshots carry six registers and show no mismatch, the comparator reports the end of
  the second trace at the step equal to the second store's length, and returns that
  step.
\<close>

theorem second_exhausted:
  assumes i: "0 \<le> i" "i < int (length self)" "i < int (length other)"
    and shorter: "length (other ! nat i) < length (self ! nat i)"
    and ag: "agree_before (self ! nat i) (other ! nat i) (length (other ! nat i))"
  shows "compare_org_trace self other i =
           Inr \<lparr>printed = [EndOfOther (length (other ! nat i))],
                returned = Some (length (other ! nat i))\<rparr>"
proof -
  from i have a: "get_item self i = Inr (self ! nat i)" and b: "get_item other i = Inr (other ! nat i)"
    by (simp_all add: get_item_valid)
  show ?thesis
    using compare_at [OF a b shorter _ ag] by simp
qed

theorem second_exhausted_witness:
  "compare_org_trace
     [[\<lparr>idx = 0, heads = [(''IP'', 1)], regs = [0, 1, 2, 3, 4, 5, 6]\<rparr>,
       \<lparr>idx = 0, heads = [(''IP'', 2)], regs = [0, 1, 2, 3, 4, 5]\<rparr>]]
     [[\<lparr>idx = 0, heads = [(''IP'', 1), (''RH'', 9)], regs = [0, 1, 2, 3, 4, 5, 7]\<rparr>]] 0
   = Inr \<lparr>printed = [EndOfOther 1], returned = Some 1\<rparr>"
proof -
  have ag: "agree_before
     ([[\<lparr>idx = 0, heads = [(''IP'', 1)], regs = [0, 1, 2, 3, 4, 5, 6]\<rparr>,
        \<lparr>idx = 0, heads = [(''IP'', 2)], regs = [0, 1, 2, 3, 4, 5]\<rparr>]] ! nat 0)
     ([[\<lparr>idx = 0, heads = [(''IP'', 1), (''RH'', 9)], regs = [0, 1, 2, 3, 4, 5, 7]\<rparr>]] ! nat 0)
     (length ([[\<lparr>idx = 0, heads = [(''IP'', 1), (''RH'', 9)],
                 regs = [0, 1, 2, 3, 4, 5, 7]\<rparr>]] ! nat 0))"
    by code_simp
  show ?thesis
    using second_exhausted [OF _ _ _ _ ag] by simp
qed

text \<open>
  Claim C7 as stated fails when a snapshot of an earlier step carries fewer than six
  registers: the two first snapshots below are equal, so no mismatch exists, and the
  comparison raises at step 0.
\<close>

theorem second_exhausted_counterexample:
  "no_mismatch \<lparr>idx = 0, heads = [(''IP'', 1)], regs = [7]\<rparr>
               \<lparr>idx = 0, heads = [(''IP'', 1)], regs = [7]\<rparr>
   \<and> length ([[\<lparr>idx = 0, heads = [(''IP'', 1)], regs = [7]\<rparr>]] ! 0)
       < length ([[\<lparr>idx = 0, heads = [(''IP'', 1)], regs = [7]\<rparr>,
                   \<lparr>idx = 0, heads = [(''IP'', 2)], regs = [8]\<rparr>]] ! 0)
   \<and> compare_org_trace
        [[\<lparr>idx = 0, heads = [(''IP'', 1)], regs = [7]\<rparr>,
          \<lparr>idx = 0, heads = [(''IP'', 2)], regs = [8]\<rparr>]]
        [[\<lparr>idx = 0, heads = [(''IP'', 1)], regs = [7]\<rparr>]] 0
      = Inl IndexError"
proof -
  have "compare_org_trace
        [[\<lparr>idx = 0, heads = [(''IP'', 1)], regs = [7]\<rparr>,
          \<lparr>idx = 0, heads = [(''IP'', 2)], regs = [8]\<rparr>]]
        [[\<lparr>idx = 0, heads = [(''IP'', 1)], regs = [7]\<rparr>]] 0
      = Inl IndexError"
    by code_simp
  moreover have "no_mismatch \<lparr>idx = 0, heads = [(''IP'', 1)], regs = [7]\<rparr>
               \<lparr>idx = 0, heads = [(''IP'', 1)], regs = [7]\<rparr>"
    by code_simp
  ultimately show ?thesis by simp
qed

text \<open>
  Claim C8, as the code has it: at a compared step where registers 0 to 5 are equal, a
  head of the first snapshot that the second lacks is reported as missing at that step
  when every head before it in the first snapshot has the same value in the second; in
  any case the result at that step is a missing head or a head mismatch, never a register
  mismatch. The comparison of two snapshots depends on their registers 0 to 5, on the
  heads of the first and on the values the second gives to the head names of the first,
  and on nothing else.
\<close>

theorem missing_head_reported:
  "(reaches self other i n \<and>
    regs_0_5_equal (self ! nat i ! n) (other ! nat i ! n) \<and>
    dict_keys (heads (self ! nat i ! n)) = ks @ h # ks' \<and>
    h \<notin> set (dict_keys (heads (other ! nat i ! n))) \<and>
    (\<forall>k\<in>set ks. k \<in> set (dict_keys (heads (other ! nat i ! n))) \<and>
        map_of (heads (other ! nat i ! n)) k = map_of (heads (self ! nat i ! n)) k)
    \<longrightarrow> compare_org_trace self other i
          = Inr \<lparr>printed = [HeadMissing h n], returned = Some n\<rparr>) \<and>
   (reaches self' other' j m \<and>
    regs_0_5_equal (self' ! nat j ! m) (other' ! nat j ! m) \<and>
    h' \<in> set (dict_keys (heads (self' ! nat j ! m))) \<and>
    h' \<notin> set (dict_keys (heads (other' ! nat j ! m)))
    \<longrightarrow> (\<exists>k. compare_org_trace self' other' j
                = Inr \<lparr>printed = [HeadMissing k m], returned = Some m\<rparr>
             \<or> compare_org_trace self' other' j
                = Inr \<lparr>printed = [HeadMismatch k m], returned = Some m\<rparr>)) \<and>
   (take 6 (regs a) = take 6 (regs a') \<and> heads a = heads a' \<and>
    take 6 (regs b) = take 6 (regs b') \<and>
    (\<forall>k\<in>set (dict_keys (heads a)). map_of (heads b) k = map_of (heads b') k)
    \<longrightarrow> compare_step a b step = compare_step a' b' step)"
proof (intro conjI impI)
  assume h: "reaches self other i n \<and>
    regs_0_5_equal (self ! nat i ! n) (other ! nat i ! n) \<and>
    dict_keys (heads (self ! nat i ! n)) = ks @ h # ks' \<and>
    h \<notin> set (dict_keys (heads (other ! nat i ! n))) \<and>
    (\<forall>k\<in>set ks. k \<in> set (dict_keys (heads (other ! nat i ! n))) \<and>
        map_of (heads (other ! nat i ! n)) k = map_of (heads (self ! nat i ! n)) k)"
  then have "compare_step (self ! nat i ! n) (other ! nat i ! n) n = Inr (Some (HeadMissing h n))"
    by (intro compare_step_missing [where ks = ks and ks' = ks']) (simp_all add: regs_0_5_equal_def)
  with h show "compare_org_trace self other i
          = Inr \<lparr>printed = [HeadMissing h n], returned = Some n\<rparr>"
    using reaches_compare [of self other i n] by simp
next
  assume h: "reaches self' other' j m \<and>
    regs_0_5_equal (self' ! nat j ! m) (other' ! nat j ! m) \<and>
    h' \<in> set (dict_keys (heads (self' ! nat j ! m))) \<and>
    h' \<notin> set (dict_keys (heads (other' ! nat j ! m)))"
  then obtain k where
    "compare_step (self' ! nat j ! m) (other' ! nat j ! m) m = Inr (Some (HeadMissing k m))
     \<or> compare_step (self' ! nat j ! m) (other' ! nat j ! m) m = Inr (Some (HeadMismatch k m))"
    using compare_step_head_based [of "self' ! nat j ! m" "other' ! nat j ! m" h' m]
    by (auto simp: regs_0_5_equal_def)
  with h show "\<exists>k. compare_org_trace self' other' j
                = Inr \<lparr>printed = [HeadMissing k m], returned = Some m\<rparr>
             \<or> compare_org_trace self' other' j
                = Inr \<lparr>printed = [HeadMismatch k m], returned = Some m\<rparr>"
    using reaches_compare [of self' other' j m] by auto
next
  assume "take 6 (regs a) = take 6 (regs a') \<and> heads a = heads a' \<and>
    take 6 (regs b) = take 6 (regs b') \<and>
    (\<forall>k\<in>set (dict_keys (heads a)). map_of (heads b) k = map_of (heads b') k)"
  then show "compare_step a b step = compare_step a' b' step"
    by (intro compare_step_restrict) simp_all
qed

theorem missing_head_reported_witness:
  "compare_org_trace
      [[\<lparr>idx = 0, heads = [(''IP'', 2)], regs = [1, 2, 3, 4, 5, 6]\<rparr>,
        \<lparr>idx = 0, heads = [(''IP'', 3), (''FH'', 0)], regs = [1, 2, 3, 4, 5, 6, 7]\<rparr>]]
      [[\<lparr>idx = 0, heads = [(''IP'', 2)], regs = [1, 2, 3, 4, 5, 6]\<rparr>,
        \<lparr>idx = 0, heads = [(''IP'', 3), (''RH'', 8)], regs = [1, 2, 3, 4, 5, 6, 99]\<rparr>]] 0
    = Inr \<lparr>printed = [HeadMissing ''FH'' 1], returned = Some 1\<rparr>
   \<and> (\<exists>k. compare_org_trace
      [[\<lparr>idx = 0, heads = [(''IP'', 2)], regs = [1, 2, 3, 4, 5, 6]\<rparr>,
        \<lparr>idx = 0, heads = [(''IP'', 3), (''FH'', 0)], regs = [1, 2, 3, 4, 5, 6, 7]\<rparr>]]
      [[\<lparr>idx = 0, heads = [(''IP'', 2)], regs = [1, 2, 3, 4, 5, 6]\<rparr>,
        \<lparr>idx = 0, heads = [(''IP'', 3), (''RH'', 8)], regs = [1, 2, 3, 4, 5, 6, 99]\<rparr>]] 0
    = Inr \<lparr>printed = [HeadMissing k 1], returned = Some 1\<rparr>
    \<or> compare_org_trace
      [[\<lparr>idx = 0, heads = [(''IP'', 2)], regs = [1, 2, 3, 4, 5, 6]\<rparr>,
        \<lparr>idx = 0, heads = [(''IP'', 3), (''FH'', 0)], regs = [1, 2, 3, 4, 5, 6, 7]\<rparr>]]
      [[\<lparr>idx = 0, heads = [(''IP'', 2)], regs = [1, 2, 3, 4, 5, 6]\<rparr>,
        \<lparr>idx = 0, heads = [(''IP'', 3), (''RH'', 8)], regs = [1, 2, 3, 4, 5, 6, 99]\<rparr>]] 0
    = Inr \<lparr>printed = [HeadMismatch k 1], returned = Some 1\<rparr>)
   \<and> compare_step
      \<lparr>idx = 0, heads = [(''IP'', 3), (''FH'', 0)], regs = [1, 2, 3, 4, 5, 6, 7]\<rparr>
      \<lparr>idx = 0, heads = [(''IP'', 3), (''RH'', 8)], regs = [1, 2, 3, 4, 5, 6, 99]\<rparr> 1
    = compare_step
      \<lparr>idx = 0, heads = [(''IP'', 3), (''FH'', 0)], regs = [1, 2, 3, 4, 5, 6, 8, 9]\<rparr>
      \<lparr>idx = 0, heads = [(''IP'', 3)], regs = [1, 2, 3, 4, 5, 6]\<rparr> 1"
proof -
  have h1: "reaches
      [[\<lparr>idx = 0, heads = [(''IP'', 2)], regs = [1, 2, 3, 4, 5, 6]\<rparr>,
        \<lparr>idx = 0, heads = [(''IP'', 3), (''FH'', 0)], regs = [1, 2, 3, 4, 5, 6, 7]\<rparr>]]
      [[\<lparr>idx = 0, heads = [(''IP'', 2)], regs = [1, 2, 3, 4, 5, 6]\<rparr>,
        \<lparr>idx = 0, heads = [(''IP'', 3), (''RH'', 8)], regs = [1, 2, 3, 4, 5, 6, 99]\<rparr>]] 0 1 \<and>
    regs_0_5_equal ([[\<lparr>idx = 0, heads = [(''IP'', 2)], regs = [1, 2, 3, 4, 5, 6]\<rparr>,
        \<lparr>idx = 0, heads = [(''IP'', 3), (''FH'', 0)], regs = [1, 2, 3, 4, 5, 6, 7]\<rparr>]] ! nat 0 ! 1) ([[\<lparr>idx = 0, heads = [(''IP'', 2)], regs = [1, 2, 3, 4, 5, 6]\<rparr>,
        \<lparr>idx = 0, heads = [(''IP'', 3), (''RH'', 8)], regs = [1, 2, 3, 4, 5, 6, 99]\<rparr>]] ! nat 0 ! 1) \<and>
    dict_keys (heads ([[\<lparr>idx = 0, heads = [(''IP'', 2)], regs = [1, 2, 3, 4, 5, 6]\<rparr>,
        \<lparr>idx = 0, heads = [(''IP'', 3), (''FH'', 0)], regs = [1, 2, 3, 4, 5, 6, 7]\<rparr>]] ! nat 0 ! 1)) = [''IP''] @ ''FH'' # [] \<and>
    ''FH'' \<notin> set (dict_keys (heads ([[\<lparr>idx = 0, heads = [(''IP'', 2)], regs = [1, 2, 3, 4, 5, 6]\<rparr>,
        \<lparr>idx = 0, heads = [(''IP'', 3), (''RH'', 8)], regs = [1, 2, 3, 4, 5, 6, 99]\<rparr>]] ! nat 0 ! 1))) \<and>
    (\<forall>k\<in>set [''IP'']. k \<in> set (dict_keys (heads ([[\<lparr>idx = 0, heads = [(''IP'', 2)], regs = [1, 2, 3, 4, 5, 6]\<rparr>,
        \<lparr>idx = 0, heads = [(''IP'', 3), (''RH'', 8)], regs = [1, 2, 3, 4, 5, 6, 99]\<rparr>]] ! nat 0 ! 1))) \<and>
        map_of (heads ([[\<lparr>idx = 0, heads = [(''IP'', 2)], regs = [1, 2, 3, 4, 5, 6]\<rparr>,
        \<lparr>idx = 0, heads = [(''IP'', 3), (''RH'', 8)], regs = [1, 2, 3, 4, 5, 6, 99]\<rparr>]] ! nat 0 ! 1)) k = map_of (heads ([[\<lparr>idx = 0, heads = [(''IP'', 2)], regs = [1, 2, 3, 4, 5, 6]\<rparr>,
        \<lparr>idx = 0, heads = [(''IP'', 3), (''FH'', 0)], regs = [1, 2, 3, 4, 5, 6, 7]\<rparr>]] ! nat 0 ! 1)) k)"
    by code_simp
  have h2: "reaches
      [[\<lparr>idx = 0, heads = [(''IP'', 2)], regs = [1, 2, 3, 4, 5, 6]\<rparr>,
        \<lparr>idx = 0, heads = [(''IP'', 3), (''FH'', 0)], regs = [1, 2, 3, 4, 5, 6, 7]\<rparr>]]
      [[\<lparr>idx = 0, heads = [(''IP'', 2)], regs = [1, 2, 3, 4, 5, 6]\<rparr>,
        \<lparr>idx = 0, heads = [(''IP'', 3), (''RH'', 8)], regs = [1, 2, 3, 4, 5, 6, 99]\<rparr>]] 0 1 \<and>
    regs_0_5_equal ([[\<lparr>idx = 0, heads = [(''IP'', 2)], regs = [1, 2, 3, 4, 5, 6]\<rparr>,
        \<lparr>idx = 0, heads = [(''IP'', 3), (''FH'', 0)], regs = [1, 2, 3, 4, 5, 6, 7]\<rparr>]] ! nat 0 ! 1) ([[\<lparr>idx = 0, heads = [(''IP'', 2)], regs = [1, 2, 3, 4, 5, 6]\<rparr>,
        \<lparr>idx = 0, heads = [(''IP'', 3), (''RH'', 8)], regs = [1, 2, 3, 4, 5, 6, 99]\<rparr>]] ! nat 0 ! 1) \<and>
    ''FH'' \<in> set (dict_keys (heads ([[\<lparr>idx = 0, heads = [(''IP'', 2)], regs = [1, 2, 3, 4, 5, 6]\<rparr>,
        \<lparr>idx = 0, heads = [(''IP'', 3), (''FH'', 0)], regs = [1, 2, 3, 4, 5, 6, 7]\<rparr>]] ! nat 0 ! 1))) \<and>
    ''FH'' \<notin> set (dict_keys (heads ([[\<lparr>idx = 0, heads = [(''IP'', 2)], regs = [1, 2, 3, 4, 5, 6]\<rparr>,
        \<lparr>idx = 0, heads = [(''IP'', 3), (''RH'', 8)], regs = [1, 2, 3, 4, 5, 6, 99]\<rparr>]] ! nat 0 ! 1)))"
    by code_simp
  have h3: "take 6 (regs \<lparr>idx = 0, heads = [(''IP'', 3), (''FH'', 0)], regs = [1, 2, 3, 4, 5, 6, 7]\<rparr>) = take 6 (regs \<lparr>idx = 0, heads = [(''IP'', 3), (''FH'', 0)], regs = [1, 2, 3, 4, 5, 6, 8, 9]\<rparr>) \<and>
    heads \<lparr>idx = 0, heads = [(''IP'', 3), (''FH'', 0)], regs = [1, 2, 3, 4, 5, 6, 7]\<rparr> = heads \<lparr>idx = 0, heads = [(''IP'', 3), (''FH'', 0)], regs = [1, 2, 3, 4, 5, 6, 8, 9]\<rparr> \<and>
    take 6 (regs \<lparr>idx = 0, heads = [(''IP'', 3), (''RH'', 8)], regs = [1, 2, 3, 4, 5, 6, 99]\<rparr>) = take 6 (regs \<lparr>idx = 0, heads = [(''IP'', 3)], regs = [1, 2, 3, 4, 5, 6]\<rparr>) \<and>
    (\<forall>k\<in>set (dict_keys (heads \<lparr>idx = 0, heads = [(''IP'', 3), (''FH'', 0)], regs = [1, 2, 3, 4, 5, 6, 7]\<rparr>)).
        map_of (heads \<lparr>idx = 0, heads = [(''IP'', 3), (''RH'', 8)], regs = [1, 2, 3, 4, 5, 6, 99]\<rparr>) k = map_of (heads \<lparr>idx = 0, heads = [(''IP'', 3)], regs = [1, 2, 3, 4, 5, 6]\<rparr>) k)"
    by code_simp
  from missing_head_reported
    [of "[[\<lparr>idx = 0, heads = [(''IP'', 2)], regs = [1, 2, 3, 4, 5, 6]\<rparr>,
        \<lparr>idx = 0, heads = [(''IP'', 3), (''FH'', 0)], regs = [1, 2, 3, 4, 5, 6, 7]\<rparr>]]"
        "[[\<lparr>idx = 0, heads = [(''IP'', 2)], regs = [1, 2, 3, 4, 5, 6]\<rparr>,
        \<lparr>idx = 0, heads = [(''IP'', 3), (''RH'', 8)], regs = [1, 2, 3, 4, 5, 6, 99]\<rparr>]]" 0 1
        "[''IP'']" "''FH''" "[]"
        "[[\<lparr>idx = 0, heads = [(''IP'', 2)], regs = [1, 2, 3, 4, 5, 6]\<rparr>,
        \<lparr>idx = 0, heads = [(''IP'', 3), (''FH'', 0)], regs = [1, 2, 3, 4, 5, 6, 7]\<rparr>]]"
        "[[\<lparr>idx = 0, heads = [(''IP'', 2)], regs = [1, 2, 3, 4, 5, 6]\<rparr>,
        \<lparr>idx = 0, heads = [(''IP'', 3), (''RH'', 8)], regs = [1, 2, 3, 4, 5, 6, 99]\<rparr>]]" 0 1
        "''FH''"
        "\<lparr>idx = 0, heads = [(''IP'', 3), (''FH'', 0)], regs = [1, 2, 3, 4, 5, 6, 7]\<rparr>"
        "\<lparr>idx = 0, heads = [(''IP'', 3), (''FH'', 0)], regs = [1, 2, 3, 4, 5, 6, 8, 9]\<rparr>"
        "\<lparr>idx = 0, heads = [(''IP'', 3), (''RH'', 8)], regs = [1, 2, 3, 4, 5, 6, 99]\<rparr>"
        "\<lparr>idx = 0, heads = [(''IP'', 3)], regs = [1, 2, 3, 4, 5, 6]\<rparr>" 1]
    h1 h2 h3
  show ?thesis by blast
qed

text \<open>
  Claim C8 as stated fails when a head before the missing one differs: the first
  snapshot has FH and the second lacks it, yet the report is the mismatch of IP.
\<close>

theorem missing_head_counterexample:
  "compare_org_trace
     [[\<lparr>idx = 0, heads = [(''IP'', 3), (''FH'', 0)], regs = [0, 0, 0, 0, 0, 0]\<rparr>]]
     [[\<lparr>idx = 0, heads = [(''IP'', 4)], regs = [0, 0, 0, 0, 0, 0]\<rparr>]] 0
   = Inr \<lparr>printed = [HeadMismatch ''IP'' 0], returned = Some 0\<rparr>"
  by code_simp

text \<open>
  Claim C10, as the code has it: at a compared step where a snapshot carries fewer than
  six registers and the registers both snapshots hold are equal, the register loop raises
  \<^verbatim>\<open>IndexError\<close>; at a compared step where the snapshots differ at a register among
  0 to 5 that both hold, the first such register is reported as the mismatch and nothing
  is raised, however few registers the snapshots carry; and the comparator returns
  without error when every snapshot of the organism, in both stores, carries at least six
  registers.
\<close>

theorem short_registers_raise:
  "(reaches self other i n \<and>
    regs_run_out (self ! nat i ! n) (other ! nat i ! n)
    \<longrightarrow> compare_org_trace self other i = Inl IndexError) \<and>
   (reaches self1 other1 i1 n1 \<and>
    first_mismatch (self1 ! nat i1 ! n1) (other1 ! nat i1 ! n1) r
    \<longrightarrow> compare_org_trace self1 other1 i1
          = Inr \<lparr>printed = [RegMismatch r n1], returned = Some n1\<rparr>) \<and>
   (0 \<le> j \<and> j < int (length self') \<and> j < int (length other') \<and>
    (\<forall>s\<in>set (self' ! nat j). six_regs s) \<and> (\<forall>s\<in>set (other' ! nat j). six_regs s)
    \<longrightarrow> (\<exists>r. compare_org_trace self' other' j = Inr r))"
proof (intro conjI impI)
  assume h: "reaches self other i n \<and>
    regs_run_out (self ! nat i ! n) (other ! nat i ! n)"
  then have "reg_loop (self ! nat i ! n) (other ! nat i ! n) n [0..<6] = Inl IndexError"
    by (intro reg_loop_short) (auto simp: regs_run_out_def)
  then have "compare_step (self ! nat i ! n) (other ! nat i ! n) n = Inl IndexError"
    by (simp add: compare_step_def)
  with h show "compare_org_trace self other i = Inl IndexError"
    using reaches_compare [of self other i n] by simp
next
  assume h: "reaches self1 other1 i1 n1 \<and>
    first_mismatch (self1 ! nat i1 ! n1) (other1 ! nat i1 ! n1) r"
  then have "compare_step (self1 ! nat i1 ! n1) (other1 ! nat i1 ! n1) n1
               = Inr (Some (RegMismatch r n1))"
    by (simp add: compare_step_first_mismatch)
  with h show "compare_org_trace self1 other1 i1
          = Inr \<lparr>printed = [RegMismatch r n1], returned = Some n1\<rparr>"
    using reaches_compare [of self1 other1 i1 n1] by simp
next
  assume h: "0 \<le> j \<and> j < int (length self') \<and> j < int (length other') \<and>
    (\<forall>s\<in>set (self' ! nat j). six_regs s) \<and> (\<forall>s\<in>set (other' ! nat j). six_regs s)"
  then have a: "get_item self' j = Inr (self' ! nat j)"
    and b: "get_item other' j = Inr (other' ! nat j)"
    by (simp_all add: get_item_valid)
  from h have "\<exists>r. step_loop self' other' j [0..<length (self' ! nat j)] = Inr r"
    by (intro step_loop_no_error [OF a b]) auto
  with a show "\<exists>r. compare_org_trace self' other' j = Inr r"
    by (simp add: compare_org_trace_def)
qed

theorem short_registers_raise_witness:
  "compare_org_trace
     [[\<lparr>idx = 0, heads = [(''IP'', 1)], regs = [0, 1, 2, 3, 4, 5]\<rparr>,
       \<lparr>idx = 0, heads = [(''IP'', 2)], regs = [4, 2]\<rparr>]]
     [[\<lparr>idx = 0, heads = [(''IP'', 1)], regs = [0, 1, 2, 3, 4, 5]\<rparr>,
       \<lparr>idx = 0, heads = [(''IP'', 2)], regs = [4, 2, 0, 0, 0, 0]\<rparr>]] 0
   = Inl IndexError \<and>
   compare_org_trace
     [[\<lparr>idx = 0, heads = [(''IP'', 1)], regs = [0, 1, 2, 3, 4, 5]\<rparr>,
       \<lparr>idx = 0, heads = [(''IP'', 2)], regs = [1, 1]\<rparr>]]
     [[\<lparr>idx = 0, heads = [(''IP'', 1)], regs = [0, 1, 2, 3, 4, 5]\<rparr>,
       \<lparr>idx = 0, heads = [(''IP'', 2)], regs = [1, 2, 0, 0, 0, 0]\<rparr>]] 0
   = Inr \<lparr>printed = [RegMismatch 1 1], returned = Some 1\<rparr> \<and>
   (\<exists>r. compare_org_trace
     [[\<lparr>idx = 0, heads = [(''IP'', 1)], regs = [0, 1, 2, 3, 4, 5]\<rparr>]]
     [[\<lparr>idx = 0, heads = [(''IP'', 1)], regs = [0, 1, 2, 3, 4, 9, 7]\<rparr>]] 0 = Inr r)"
proof -
  have h1: "reaches
      [[\<lparr>idx = 0, heads = [(''IP'', 1)], regs = [0, 1, 2, 3, 4, 5]\<rparr>,
       \<lparr>idx = 0, heads = [(''IP'', 2)], regs = [4, 2]\<rparr>]]
      [[\<lparr>idx = 0, heads = [(''IP'', 1)], regs = [0, 1, 2, 3, 4, 5]\<rparr>,
       \<lparr>idx = 0, heads = [(''IP'', 2)], regs = [4, 2, 0, 0, 0, 0]\<rparr>]] 0 1 \<and>
    regs_run_out
      ([[\<lparr>idx = 0, heads = [(''IP'', 1)], regs = [0, 1, 2, 3, 4, 5]\<rparr>,
       \<lparr>idx = 0, heads = [(''IP'', 2)], regs = [4, 2]\<rparr>]] ! nat 0 ! 1)
      ([[\<lparr>idx = 0, heads = [(''IP'', 1)], regs = [0, 1, 2, 3, 4, 5]\<rparr>,
       \<lparr>idx = 0, heads = [(''IP'', 2)], regs = [4, 2, 0, 0, 0, 0]\<rparr>]] ! nat 0 ! 1)"
    by code_simp
  have h2: "reaches
      [[\<lparr>idx = 0, heads = [(''IP'', 1)], regs = [0, 1, 2, 3, 4, 5]\<rparr>,
       \<lparr>idx = 0, heads = [(''IP'', 2)], regs = [1, 1]\<rparr>]]
      [[\<lparr>idx = 0, heads = [(''IP'', 1)], regs = [0, 1, 2, 3, 4, 5]\<rparr>,
       \<lparr>idx = 0, heads = [(''IP'', 2)], regs = [1, 2, 0, 0, 0, 0]\<rparr>]] 0 1 \<and>
    first_mismatch
      ([[\<lparr>idx = 0, heads = [(''IP'', 1)], regs = [0, 1, 2, 3, 4, 5]\<rparr>,
       \<lparr>idx = 0, heads = [(''IP'', 2)], regs = [1, 1]\<rparr>]] ! nat 0 ! 1)
      ([[\<lparr>idx = 0, heads = [(''IP'', 1)], regs = [0, 1, 2, 3, 4, 5]\<rparr>,
       \<lparr>idx = 0, heads = [(''IP'', 2)], regs = [1, 2, 0, 0, 0, 0]\<rparr>]] ! nat 0 ! 1) 1"
    by code_simp
  have h3: "0 \<le> (0::int) \<and>
    0 < int (length [[\<lparr>idx = 0, heads = [(''IP'', 1)], regs = [0, 1, 2, 3, 4, 5]\<rparr>]]) \<and>
    0 < int (length [[\<lparr>idx = 0, heads = [(''IP'', 1)], regs = [0, 1, 2, 3, 4, 9, 7]\<rparr>]]) \<and>
    (\<forall>s\<in>set ([[\<lparr>idx = 0, heads = [(''IP'', 1)], regs = [0, 1, 2, 3, 4, 5]\<rparr>]] ! nat 0).
       six_regs s) \<and>
    (\<forall>s\<in>set ([[\<lparr>idx = 0, heads = [(''IP'', 1)], regs = [0, 1, 2, 3, 4, 9, 7]\<rparr>]] ! nat 0).
       six_regs s)"
    by code_simp
  from short_registers_raise
    [where self = "[[\<lparr>idx = 0, heads = [(''IP'', 1)], regs = [0, 1, 2, 3, 4, 5]\<rparr>,
       \<lparr>idx = 0, heads = [(''IP'', 2)], regs = [4, 2]\<rparr>]]"
       and other = "[[\<lparr>idx = 0, heads = [(''IP'', 1)], regs = [0, 1, 2, 3, 4, 5]\<rparr>,
       \<lparr>idx = 0, heads = [(''IP'', 2)], regs = [4, 2, 0, 0, 0, 0]\<rparr>]]"
       and i = 0 and n = 1
       and ?self1.0 = "[[\<lparr>idx = 0, heads = [(''IP'', 1)], regs = [0, 1, 2, 3, 4, 5]\<rparr>,
       \<lparr>idx = 0, heads = [(''IP'', 2)], regs = [1, 1]\<rparr>]]"
       and ?other1.0 = "[[\<lparr>idx = 0, heads = [(''IP'', 1)], regs = [0, 1, 2, 3, 4, 5]\<rparr>,
       \<lparr>idx = 0, heads = [(''IP'', 2)], regs = [1, 2, 0, 0, 0, 0]\<rparr>]]"
       and ?i1.0 = 0 and ?n1.0 = 1 and r = 1
       and j = 0 and self' = "[[\<lparr>idx = 0, heads = [(''IP'', 1)], regs = [0, 1, 2, 3, 4, 5]\<rparr>]]"
       and other' = "[[\<lparr>idx = 0, heads = [(''IP'', 1)], regs = [0, 1, 2, 3, 4, 9, 7]\<rparr>]]"]
    h1 h2 h3
  show ?thesis by blast
qed

text \<open>
  Claim C10 as stated fails: with one register in the first snapshot, a mismatch at
  register 0 is reported before any register out of range is read.
\<close>

theorem short_registers_counterexample:
  "compare_org_trace
     [[\<lparr>idx = 0, heads = [(''IP'', 1)], regs = [1]\<rparr>]]
     [[\<lparr>idx = 0, heads = [(''IP'', 1)], regs = [2, 0, 0, 0, 0, 0]\<rparr>]] 0
   = Inr \<lparr>printed = [RegMismatch 0 0], returned = Some 0\<rparr>"
  by code_simp

end
